theory Spec2Isabelle
  imports Complex_Main
begin

section \<open>Python values used by the detector\<close>

text \<open>
  The development follows \<^verbatim>\<open>src/python/ai_detector.py\<close>. Python strings are modelled as
  \<^typ>\<open>string\<close>, a list of 8-bit characters read as the code points 0..255; Python
  integers as \<^typ>\<open>int\<close> or, where the source only counts, \<^typ>\<open>nat\<close>; Python floats
  are idealised as \<^typ>\<open>real\<close>: there is no rounding error and no NaN, and of the
  exceptions of float arithmetic only the one the source can meet on finite losses is
  kept, the \<^verbatim>\<open>OverflowError\<close> of \<^verbatim>\<open>math.exp\<close>. Exceptions are values of a sum type,
  \<open>Inl\<close> carrying the exception.
\<close>

datatype py_error = ValueError | StatisticsError | RuntimeError | ImportError | OverflowError

text \<open>\<^verbatim>\<open>str.isspace\<close> on the code points below 256.\<close>

definition is_space :: "char \<Rightarrow> bool" where
  "is_space c = (c \<in> set [CHR 0x09, CHR 0x0A, CHR 0x0B, CHR 0x0C, CHR 0x0D,
                            CHR 0x1C, CHR 0x1D, CHR 0x1E, CHR 0x1F, CHR 0x20,
                            CHR 0x85, CHR 0xA0])"

text \<open>\<^verbatim>\<open>text.split()\<close>: the maximal runs of non-whitespace characters, in order.
  The first argument is the word being read.\<close>

fun split_ws :: "string \<Rightarrow> string \<Rightarrow> string list" where
  "split_ws cur [] = (if cur = [] then [] else [cur])"
| "split_ws cur (c # cs) =
     (if is_space c then (if cur = [] then split_ws [] cs else cur # split_ws [] cs)
      else split_ws (cur @ [c]) cs)"

definition py_split :: "string \<Rightarrow> string list" where
  "py_split s = split_ws [] s"

text \<open>\<^verbatim>\<open>text.split(sep)\<close> for a one-character separator: empty pieces are kept.\<close>

fun split_on :: "char \<Rightarrow> string \<Rightarrow> string list" where
  "split_on sep [] = [[]]"
| "split_on sep (c # cs) =
     (if c = sep then [] # split_on sep cs
      else (case split_on sep cs of
              [] \<Rightarrow> [[c]]
            | w # ws \<Rightarrow> (c # w) # ws))"

definition py_strip :: "string \<Rightarrow> string" where
  "py_strip s = rev (dropWhile is_space (rev (dropWhile is_space s)))"

text \<open>\<^verbatim>\<open>sep.join(ws)\<close>.\<close>

fun py_join :: "string \<Rightarrow> string list \<Rightarrow> string" where
  "py_join sep [] = []"
| "py_join sep [w] = w"
| "py_join sep (w # v # ws) = w @ sep @ py_join sep (v # ws)"

text \<open>\<^verbatim>\<open>range(start, stop, step)\<close> as the list it enumerates; a zero step raises
  \<^verbatim>\<open>ValueError\<close>.\<close>

definition py_range :: "int \<Rightarrow> int \<Rightarrow> int \<Rightarrow> py_error + int list" where
  "py_range start stop step =
     (if step = 0 then Inl ValueError
      else if 0 < step then
        Inr (map (\<lambda>k. start + int k * step) [0 ..< nat ((stop - start + step - 1) div step)])
      else
        Inr (map (\<lambda>k. start + int k * step) [0 ..< nat ((start - stop - step - 1) div (- step))]))"

text \<open>\<^verbatim>\<open>xs[lo:hi]\<close>: a negative bound counts from the end, and both bounds are clipped
  to the list.\<close>

definition py_slice :: "'a list \<Rightarrow> int \<Rightarrow> int \<Rightarrow> 'a list" where
  "py_slice xs lo hi =
     (let n = int (length xs);
          a = (if lo < 0 then max 0 (lo + n) else min lo n);
          b = (if hi < 0 then max 0 (hi + n) else min hi n)
      in take (nat (b - a)) (drop (nat a) xs))"

section \<open>Chunker\<close>

text \<open>The body of the \<^verbatim>\<open>for\<close> loop of \<^verbatim>\<open>chunk_text\<close>: one window, appended when it
  has at least 50 words.\<close>

definition chunk_step :: "string list \<Rightarrow> int \<Rightarrow> string list \<Rightarrow> int \<Rightarrow> string list" where
  "chunk_step words chunk_size chunks i =
     (let chunk_words = py_slice words i (i + chunk_size)
      in if 50 \<le> length chunk_words then chunks @ [py_join '' '' chunk_words] else chunks)"

definition chunk_text :: "string \<Rightarrow> int \<Rightarrow> int \<Rightarrow> py_error + string list" where
  "chunk_text text chunk_size overlap =
     (let words = py_split text in
      if int (length words) \<le> chunk_size then Inr [text]
      else (case py_range 0 (int (length words)) (chunk_size - overlap) of
              Inl e \<Rightarrow> Inl e
            | Inr idxs \<Rightarrow> Inr (foldl (chunk_step words chunk_size) [] idxs)))"


text \<open>The windows the chunker is specified to slide over the words: \<open>width\<close> words
  from every multiple of \<open>stride\<close> below the word count.\<close>

definition windows :: "'a list \<Rightarrow> nat \<Rightarrow> nat \<Rightarrow> 'a list list" where
  "windows words width stride =
     map (\<lambda>k. take width (drop (k * stride) words))
         [0 ..< (length words + stride - 1) div stride]"

section \<open>More string operations\<close>

text \<open>\<^verbatim>\<open>str.lower\<close> on the code points below 256: the ASCII capitals and the Latin-1
  capitals 0xC0..0xDE, the multiplication sign 0xD7 apart, move up by 32 (bit 5,
  clear in all of them, is set).\<close>

definition lower_char :: "char \<Rightarrow> char" where
  "lower_char c =
     (let n = (of_char c :: nat) in
      if (65 \<le> n \<and> n \<le> 90) \<or> (192 \<le> n \<and> n \<le> 222 \<and> n \<noteq> 215)
      then (case c of Char b0 b1 b2 b3 b4 b5 b6 b7 \<Rightarrow> Char b0 b1 b2 b3 b4 True b6 b7)
      else c)"

definition py_lower :: "string \<Rightarrow> string" where
  "py_lower s = map lower_char s"

text \<open>\<^verbatim>\<open>sub in s\<close> on strings: \<open>sub\<close> occurs in \<open>s\<close> as a contiguous piece.\<close>

fun contains :: "string \<Rightarrow> string \<Rightarrow> bool" where
  "contains sub [] = (sub = [])"
| "contains sub (c # cs) = (take (length sub) (c # cs) = sub \<or> contains sub cs)"

text \<open>\<^verbatim>\<open>str(n)\<close> for a non-negative integer.\<close>

definition digit_char :: "nat \<Rightarrow> char" where
  "digit_char d = ''0123456789'' ! d"

fun str_nat :: "nat \<Rightarrow> string" where
  "str_nat n = (if n < 10 then [digit_char n] else str_nat (n div 10) @ [digit_char (n mod 10)])"

section \<open>Statistics\<close>

text \<open>The mean of a non-empty list.\<close>

definition mean :: "real list \<Rightarrow> real" where
  "mean xs = sum_list xs / real (length xs)"

text \<open>\<^verbatim>\<open>statistics.stdev\<close>: the sample standard deviation; fewer than two data points
  raise \<^verbatim>\<open>StatisticsError\<close>.\<close>

definition stdev :: "real list \<Rightarrow> py_error + real" where
  "stdev xs =
     (if length xs < 2 then Inl StatisticsError
      else Inr (sqrt (sum_list (map (\<lambda>x. (x - mean xs)\<^sup>2) xs) / real (length xs - 1))))"

text \<open>\<^verbatim>\<open>round(x, 2)\<close>: to the nearest multiple of 0.01, a tie to the even one.\<close>

definition round_half_even :: "real \<Rightarrow> int" where
  "round_half_even y =
     (let f = \<lfloor>y\<rfloor>; d = y - of_int f in
      if d < 1/2 then f else if 1/2 < d then f + 1 else if even f then f else f + 1)"

definition round2 :: "real \<Rightarrow> real" where
  "round2 x = of_int (round_half_even (x * 100)) / 100"

section \<open>Results\<close>

text \<open>The dictionaries the detectors return. A key that is not always present is an
  optional field. \<open>chunk_losses\<close> holds the keys \<^verbatim>\<open>loss_a\<close>, \<^verbatim>\<open>loss_b\<close> and
  \<^verbatim>\<open>ratio\<close>, which only the perplexity comparator writes; \<open>note_text\<close> is the key
  \<^verbatim>\<open>note\<close> and \<open>chunk_list\<close> the key \<^verbatim>\<open>chunks\<close>.\<close>

record chunk_result =
  chunk_id :: nat
  chunk_score :: real
  chunk_losses :: "(real \<times> real \<times> real) option"
  word_count :: nat

record chunk_stats =
  num_chunks :: nat
  avg_score :: real
  min_score :: real
  max_score :: real
  std_dev :: real
  chunk_list :: "chunk_result list"

record detection =
  ai_likelihood :: real
  confidence :: real
  indicators :: "string list"
  model :: string
  note_text :: string
  chunk_analysis :: "chunk_stats option"

section \<open>Heuristic fallback\<close>

text \<open>\<^verbatim>\<open>detect_ai_content_simple\<close>. Each check takes the running \<open>(score, indicators)\<close>
  and returns it updated. The word counts of the sentences are natural numbers; the
  coefficient of variation is computed on them as reals.\<close>

definition sentence_lengths :: "string list \<Rightarrow> nat list" where
  "sentence_lengths sentences =
     map (\<lambda>s. length (py_split s)) (filter (\<lambda>s. py_strip s \<noteq> []) sentences)"

text \<open>\<^verbatim>\<open>stdev(lengths) / mean(lengths) if mean(lengths) > 0 else 0\<close>; the mean of no
  data raises \<^verbatim>\<open>StatisticsError\<close>.\<close>

definition coeff_var :: "nat list \<Rightarrow> py_error + real" where
  "coeff_var lengths =
     (let xs = map real lengths in
      if xs = [] then Inl StatisticsError
      else if 0 < mean xs then
        (case stdev xs of Inl e \<Rightarrow> Inl e | Inr sd \<Rightarrow> Inr (sd / mean xs))
      else Inr 0)"

definition check_uniformity :: "string \<Rightarrow> nat \<times> string list \<Rightarrow> py_error + nat \<times> string list" where
  "check_uniformity text st =
     (let sentences = split_on CHR ''.'' text in
      if 3 < length sentences then
        (let lengths = sentence_lengths sentences in
         if lengths \<noteq> [] then
           (case coeff_var lengths of
              Inl e \<Rightarrow> Inl e
            | Inr cv \<Rightarrow>
                if cv < 3/10
                then Inr (fst st + 30, snd st @ [''Low sentence length variance''])
                else Inr st)
         else Inr st)
      else Inr st)"

definition sentence_starts :: "string list \<Rightarrow> string list" where
  "sentence_starts sentences =
     concat (map (\<lambda>s. if py_strip s \<noteq> [] \<and> 0 < length (py_split (py_strip s))
                        then (case py_split (py_strip s) of
                                [] \<Rightarrow> []
                              | w # _ \<Rightarrow> [py_lower w])
                        else [])
                 sentences)"

definition check_starters :: "string \<Rightarrow> nat \<times> string list \<Rightarrow> nat \<times> string list" where
  "check_starters text st =
     (let starts = sentence_starts (split_on CHR ''.'' text) in
      if starts \<noteq> [] \<and> real (card (set starts)) < real (length starts) * (1/2)
      then (fst st + 25, snd st @ [''Repetitive sentence starters''])
      else st)"

definition personal_pronouns :: "string list" where
  "personal_pronouns = [''i'', ''me'', ''my'', ''mine'', ''we'', ''us'', ''our'']"

definition check_pronouns :: "string \<Rightarrow> nat \<times> string list \<Rightarrow> nat \<times> string list" where
  "check_pronouns text st =
     (let words = py_split (py_lower text);
          pronoun_count = length (filter (\<lambda>w. w \<in> set personal_pronouns) words);
          pronoun_ratio = (if words \<noteq> [] then real pronoun_count / real (length words) else 0)
      in if pronoun_ratio < 1/100
         then (fst st + 20, snd st @ [''Lack of personal pronouns''])
         else st)"

definition transitions :: "string list" where
  "transitions = [''furthermore'', ''moreover'', ''additionally'', ''consequently'',
                  ''therefore'', ''thus'', ''hence'', ''accordingly'', ''nonetheless'']"

definition check_transitions :: "string \<Rightarrow> nat \<times> string list \<Rightarrow> nat \<times> string list" where
  "check_transitions text st =
     (let words = py_split (py_lower text);
          transition_count = length (filter (\<lambda>w. w \<in> set transitions) words)
      in if real (length words) * (2/100) < real transition_count
         then (fst st + 15, snd st @ [''High transitional phrase density''])
         else st)"

definition contractions :: "string list" where
  "contractions = [''n'' @ [CHR 0x27] @ ''t'', [CHR 0x27] @ ''ll'', [CHR 0x27] @ ''ve'',
                   [CHR 0x27] @ ''re'', [CHR 0x27] @ ''m'', [CHR 0x27] @ ''s'']"

definition check_contractions :: "string \<Rightarrow> nat \<times> string list \<Rightarrow> nat \<times> string list" where
  "check_contractions text st =
     (let words = py_split (py_lower text);
          has_contractions = list_ex (\<lambda>c. contains c text) contractions
      in if \<not> has_contractions \<and> 50 < length words
         then (fst st + 10, snd st @ [''Lack of contractions''])
         else st)"

text \<open>Checks 2 to 5, one after the other.\<close>

definition later_checks :: "string \<Rightarrow> nat \<times> string list \<Rightarrow> nat \<times> string list" where
  "later_checks text st =
     check_contractions text
       (check_transitions text (check_pronouns text (check_starters text st)))"

text \<open>The body of the \<^verbatim>\<open>try\<close> block, up to the final score and indicators.\<close>

definition heuristic_checks :: "string \<Rightarrow> py_error + nat \<times> string list" where
  "heuristic_checks text =
     (case check_uniformity text (0, []) of
        Inl e \<Rightarrow> Inl e
      | Inr st \<Rightarrow> Inr (later_checks text st))"

text \<open>\<^verbatim>\<open>str(e)\<close> of the exceptions the model raises. The wording comes from the
  Python library and may differ between its versions; for \<^verbatim>\<open>RuntimeError\<close> it is the
  start of the message of \<^verbatim>\<open>get_cached_model\<close>, which goes on with the model's name and
  the cause.\<close>

definition error_message :: "py_error \<Rightarrow> string" where
  "error_message e =
     (case e of
        StatisticsError \<Rightarrow> ''stdev requires at least two data points''
      | ValueError \<Rightarrow> ''range() arg 3 must not be zero''
      | RuntimeError \<Rightarrow> ''Failed to load model''
      | ImportError \<Rightarrow> ''No module named '' @ [CHR 0x27] @ ''transformers'' @ [CHR 0x27]
      | OverflowError \<Rightarrow> ''math range error'')"

definition detect_ai_content_simple :: "string \<Rightarrow> detection" where
  "detect_ai_content_simple text =
     (case heuristic_checks text of
        Inr (score, inds) \<Rightarrow>
          \<lparr>ai_likelihood = real (min 100 score),
           confidence = 7/10,
           indicators = inds,
           model = ''statistical_heuristics'',
           note_text = ''Using simplified detection. Install transformers for better accuracy.'',
           chunk_analysis = None\<rparr>
      | Inl e \<Rightarrow>
          \<lparr>ai_likelihood = 50,
           confidence = 3/10,
           indicators = [''Error during analysis''],
           model = ''fallback'',
           note_text = error_message e,
           chunk_analysis = None\<rparr>)"

section \<open>Model-backed detectors\<close>

text \<open>What the pretrained models, the Python installation and the thread pool contribute
  is a parameter of the model: whether the two libraries import, whether a cache key
  loads, the classifier's probability of the AI class for a chunk, a language model's
  per-token loss on a chunk (\<open>None\<close> where the call raises), which of the two worker
  tasks completes first, and the library's float formatting (\<^verbatim>\<open>{x:.1f}\<close> and
  \<^verbatim>\<open>str(round(x, 3))\<close>).\<close>

record env =
  transformers_importable :: bool
  torch_importable :: bool
  allow_advanced :: bool
  model_loads :: "string \<Rightarrow> bool"
  classify :: "string \<Rightarrow> real option"
  lm_loss :: "string \<Rightarrow> string \<Rightarrow> real option"
  roberta_first :: bool
  fmt1 :: "real \<Rightarrow> string"
  str_round3 :: "real \<Rightarrow> string"

text \<open>Mean, minimum, maximum and population standard deviation of the chunk scores;
  \<open>None\<close> is the \<^verbatim>\<open>ZeroDivisionError\<close> of an empty list.\<close>

definition score_stats :: "real list \<Rightarrow> (real \<times> real \<times> real \<times> real) option" where
  "score_stats scores =
     (if scores = [] then None
      else
        (let avg = sum_list scores / real (length scores);
             variance = sum_list (map (\<lambda>s. (s - avg)\<^sup>2) scores) / real (length scores)
         in Some (avg, Min (set scores), Max (set scores), sqrt variance)))"

definition roberta_name :: string where
  "roberta_name = ''Hello-SimpleAI/chatgpt-detector-roberta''"

text \<open>The dictionary of lines 295 to 313, from the chunks, their results and the
  statistics of their scores.\<close>

definition roberta_report ::
  "env \<Rightarrow> string list \<Rightarrow> chunk_result list \<Rightarrow> real \<times> real \<times> real \<times> real \<Rightarrow> detection" where
  "roberta_report e chunks chunk_results stats =
     (case stats of (avg, mn, mx, std) \<Rightarrow>
        \<lparr>ai_likelihood = round2 avg,
         confidence = (if std < 10 then 92/100 else if std < 20 then 85/100 else 78/100),
         indicators =
           [''Average across '' @ str_nat (length chunks) @ '' chunks: '' @ fmt1 e avg @ ''%'',
            ''Score range: '' @ fmt1 e mn @ ''% to '' @ fmt1 e mx @ ''%'',
            ''Standard deviation: '' @ fmt1 e std @ ''%''],
         model = roberta_name,
         note_text =
           (if std < 10 then
              ''Consistent AI pattern across '' @ str_nat (length chunks)
                @ '' chunks (std: '' @ fmt1 e std @ ''%)''
            else if std < 20 then
              ''Moderate variance across '' @ str_nat (length chunks)
                @ '' chunks (std: '' @ fmt1 e std @ ''%)''
            else
              ''Variable scores (range: '' @ fmt1 e mn @ ''%-'' @ fmt1 e mx
                @ ''%) suggest mixed human/AI content''),
         chunk_analysis =
           Some \<lparr>num_chunks = length chunks, avg_score = round2 avg,
                 min_score = round2 mn, max_score = round2 mx,
                 std_dev = round2 std, chunk_list = chunk_results\<rparr>\<rparr>)"

text \<open>The result of the classifier on chunk \<open>i\<close>.\<close>

definition roberta_chunk :: "nat \<times> string \<times> real \<Rightarrow> chunk_result" where
  "roberta_chunk icp =
     (case icp of (i, chunk, ai_prob) \<Rightarrow>
        \<lparr>chunk_id = i, chunk_score = ai_prob * 100,
         chunk_losses = None, word_count = length (py_split chunk)\<rparr>)"

definition detect_roberta :: "env \<Rightarrow> string \<Rightarrow> detection option" where
  "detect_roberta e text =
     (if \<not> (transformers_importable e \<and> torch_importable e) then None
      else if \<not> model_loads e (''classifier:'' @ roberta_name) then None
      else
        (case chunk_text text 400 100 of
           Inl _ \<Rightarrow> None
         | Inr chunks \<Rightarrow>
             (case those (map (classify e) chunks) of
                None \<Rightarrow> None
              | Some probs \<Rightarrow>
                  (let chunk_results =
                         map roberta_chunk (zip [0 ..< length chunks] (zip chunks probs))
                   in case score_stats (map chunk_score chunk_results) of
                        None \<Rightarrow> None
                      | Some stats \<Rightarrow> Some (roberta_report e chunks chunk_results stats)))))"

definition model_a :: string where
  "model_a = ''gpt2''"

definition model_b :: string where
  "model_b = ''EleutherAI/gpt-neo-125M''"

text \<open>\<^verbatim>\<open>compute_loss\<close>: the model comes from the cache, then runs on the chunk.\<close>

definition compute_loss :: "env \<Rightarrow> string \<Rightarrow> string \<Rightarrow> real option" where
  "compute_loss e model_name text_input =
     (if model_loads e model_name then lm_loss e model_name text_input else None)"

text \<open>The score of one chunk from the two losses (lines 362 to 364); an exception in
  it makes the whole detector return nothing. A chunk result without its losses (there
  is none: \<open>binoculars_chunk\<close> always writes them) would be the \<^verbatim>\<open>KeyError\<close> of the
  averaging, caught like every other exception.\<close>

definition loss_ratio :: "real \<Rightarrow> real \<Rightarrow> real" where
  "loss_ratio la lb = (la - lb) / (\<bar>lb\<bar> + 1 / 10 ^ 6)"

text \<open>\<^verbatim>\<open>math.exp\<close> raises \<^verbatim>\<open>OverflowError\<close> when its result is beyond the largest double;
  among the doubles these are the arguments above 709.782712893384. A result too small
  for a double is 0, not an exception.\<close>

definition py_exp :: "real \<Rightarrow> py_error + real" where
  "py_exp x = (if 709782712893384 / 10 ^ 12 < x then Inl OverflowError else Inr (exp x))"

definition binoculars_chunk_score :: "real \<Rightarrow> real \<Rightarrow> py_error + real" where
  "binoculars_chunk_score la lb =
     (case py_exp (- loss_ratio la lb * 3) of
        Inl err \<Rightarrow> Inl err
      | Inr ex \<Rightarrow> (let raw = 1 / (1 + ex) in Inr (raw * 100)))"

definition binoculars_chunk :: "env \<Rightarrow> nat \<times> string \<Rightarrow> chunk_result option" where
  "binoculars_chunk e ic =
     (case compute_loss e model_a (snd ic) of
        None \<Rightarrow> None
      | Some la \<Rightarrow>
          (case compute_loss e model_b (snd ic) of
             None \<Rightarrow> None
           | Some lb \<Rightarrow>
               (case binoculars_chunk_score la lb of
                  Inl _ \<Rightarrow> None
                | Inr score \<Rightarrow>
                    Some \<lparr>chunk_id = fst ic, chunk_score = score,
                          chunk_losses = Some (la, lb, loss_ratio la lb),
                          word_count = length (py_split (snd ic))\<rparr>)))"

definition binoculars_name :: string where
  "binoculars_name = ''binoculars:'' @ model_a @ ''|'' @ model_b"

text \<open>The dictionary of lines 402 to 421.\<close>

definition binoculars_report ::
  "env \<Rightarrow> string list \<Rightarrow> chunk_result list \<Rightarrow> real \<times> real \<times> real \<times> real
     \<Rightarrow> real \<Rightarrow> real \<Rightarrow> detection" where
  "binoculars_report e chunks chunk_results stats avg_loss_a avg_loss_b =
     (case stats of (avg, mn, mx, std) \<Rightarrow>
        \<lparr>ai_likelihood = round2 avg,
         confidence = (if std < 10 then 93/100 else if std < 20 then 87/100 else 80/100),
         indicators =
           [''Average across '' @ str_nat (length chunks) @ '' chunks: '' @ fmt1 e avg @ ''%'',
            ''Avg perplexity ratio: '' @ str_round3 e avg_loss_a @ ''/'' @ str_round3 e avg_loss_b,
            ''Score range: '' @ fmt1 e mn @ ''% to '' @ fmt1 e mx @ ''%'',
            ''Standard deviation: '' @ fmt1 e std @ ''%''],
         model = binoculars_name,
         note_text =
           (if std < 10 then
              ''Consistent perplexity pattern across '' @ str_nat (length chunks)
                @ '' chunks (std: '' @ fmt1 e std @ ''%)''
            else if std < 20 then
              ''Moderate variance across '' @ str_nat (length chunks)
                @ '' chunks (std: '' @ fmt1 e std @ ''%)''
            else
              ''Variable perplexity scores (range: '' @ fmt1 e mn @ ''%-'' @ fmt1 e mx
                @ ''%) suggest mixed content''),
         chunk_analysis =
           Some \<lparr>num_chunks = length chunks, avg_score = round2 avg,
                 min_score = round2 mn, max_score = round2 mx,
                 std_dev = round2 std, chunk_list = chunk_results\<rparr>\<rparr>)"

definition detect_binoculars :: "env \<Rightarrow> string \<Rightarrow> detection option" where
  "detect_binoculars e text =
     (if \<not> (transformers_importable e \<and> torch_importable e) then None
      else
        (case chunk_text text 700 150 of
           Inl _ \<Rightarrow> None
         | Inr chunks \<Rightarrow>
             (case those (map (binoculars_chunk e) (zip [0 ..< length chunks] chunks)) of
                None \<Rightarrow> None
              | Some chunk_results \<Rightarrow>
                  (case score_stats (map chunk_score chunk_results) of
                     None \<Rightarrow> None
                   | Some stats \<Rightarrow>
                       (case those (map chunk_losses chunk_results) of
                          None \<Rightarrow> None
                        | Some losses \<Rightarrow>
                            (let avg_loss_a = sum_list (map fst losses) / real (length chunk_results);
                                 avg_loss_b = sum_list (map (\<lambda>l. fst (snd l)) losses)
                                                / real (length chunk_results)
                             in Some (binoculars_report e chunks chunk_results stats
                                        avg_loss_a avg_loss_b)))))))"

section \<open>Ensemble\<close>

text \<open>The dictionary \<^verbatim>\<open>detect_ai_content_advanced\<close> returns: a detector's own result, or
  the combined one with the three further keys.\<close>

record advanced = detection +
  roberta_score :: "real option"
  binoculars_score :: "real option"
  individual_results :: "(detection \<times> detection) option"

definition plain :: "detection \<Rightarrow> advanced" where
  "plain d =
     \<lparr>ai_likelihood = ai_likelihood d, confidence = confidence d, indicators = indicators d,
      model = model d, note_text = note_text d, chunk_analysis = chunk_analysis d,
      roberta_score = None, binoculars_score = None, individual_results = None\<rparr>"

text \<open>The functions a run invokes, in the order of invocation.\<close>

datatype call = Heuristic | Roberta | Binoculars

text \<open>One round of the \<^verbatim>\<open>as_completed\<close> loop: a completed task's result is filed by
  the model name it carries.\<close>

definition identify ::
  "detection option \<times> detection option \<Rightarrow> detection option \<Rightarrow> detection option \<times> detection option" where
  "identify acc result =
     (case result of
        None \<Rightarrow> acc
      | Some r \<Rightarrow>
          if contains ''roberta'' (py_lower (model r)) then (Some r, snd acc)
          else if contains ''binoculars'' (py_lower (model r)) then (fst acc, Some r)
          else acc)"

text \<open>Lines 479 to 497: the result when both detectors have answered.\<close>

definition combine :: "detection \<Rightarrow> detection \<Rightarrow> advanced" where
  "combine roberta_result binoculars_result =
     (let combined_score = ai_likelihood roberta_result * (6/10)
                             + ai_likelihood binoculars_result * (4/10)
      in \<lparr>ai_likelihood = round2 combined_score,
          confidence = 92/100,
          indicators = indicators roberta_result @ indicators binoculars_result,
          model = ''combined:roberta+binoculars'',
          note_text = ''Combined RoBERTa (60%) and Binoculars (40%) detection'',
          chunk_analysis = None,
          roberta_score = Some (ai_likelihood roberta_result),
          binoculars_score = Some (ai_likelihood binoculars_result),
          individual_results = Some (roberta_result, binoculars_result)\<rparr>)"

definition detect_ai_content_advanced :: "env \<Rightarrow> string \<Rightarrow> advanced \<times> call list" where
  "detect_ai_content_advanced e text =
     (if \<not> (transformers_importable e \<and> torch_importable e)
      then (plain (detect_ai_content_simple text), [Heuristic])
      else
        (let future_roberta = detect_roberta e text;
             future_binoculars = detect_binoculars e text;
             completed = (if roberta_first e then [future_roberta, future_binoculars]
                          else [future_binoculars, future_roberta]);
             results = foldl identify (None, None) completed
         in case results of
              (Some roberta_result, Some binoculars_result) \<Rightarrow>
                (combine roberta_result binoculars_result, [Roberta, Binoculars])
            | (Some roberta_result, None) \<Rightarrow> (plain roberta_result, [Roberta, Binoculars])
            | (None, Some binoculars_result) \<Rightarrow> (plain binoculars_result, [Roberta, Binoculars])
            | (None, None) \<Rightarrow>
                (plain (detect_ai_content_simple text), [Roberta, Binoculars, Heuristic])))"

section \<open>Entry point\<close>

text \<open>The diagnostic record, without the strings that describe the installation (cache
  directory, library version and location).\<close>

record debug_info =
  dbg_transformers_available :: bool
  dbg_allow_advanced :: bool
  dbg_advanced_result_model :: "string option"
  dbg_why_failed :: "string option"
  dbg_advanced_success :: bool

text \<open>The payload of \<^verbatim>\<open>analyze_ai_likelihood\<close>; \<open>out_x\<close> is the key \<^verbatim>\<open>x\<close>, optional
  where some returned dictionary lacks it.\<close>

record payload =
  out_error :: "string option"
  out_ai_likelihood :: real
  out_confidence :: real
  out_indicators :: "string list"
  out_model :: "string option"
  out_note :: "string option"
  out_heuristic_score :: "real option"
  out_heuristic_indicators :: "string list option"
  out_heuristic_model :: "string option"
  out_roberta_score :: "real option"
  out_binoculars_score :: "real option"
  out_individual_results :: "(detection \<times> detection) option"
  out_debug :: "debug_info option"

definition too_short :: payload where
  "too_short =
     \<lparr>out_error = Some ''Text too short for AI detection'',
      out_ai_likelihood = 50, out_confidence = 0, out_indicators = [],
      out_model = None, out_note = None,
      out_heuristic_score = None, out_heuristic_indicators = None, out_heuristic_model = None,
      out_roberta_score = None, out_binoculars_score = None, out_individual_results = None,
      out_debug = None\<rparr>"

text \<open>The block that tries the advanced detection: the result it keeps, the diagnostic
  record and the calls made.\<close>

definition try_advanced :: "env \<Rightarrow> string \<Rightarrow> advanced option \<times> debug_info \<times> call list" where
  "try_advanced e text =
     (let dbg = \<lparr>dbg_transformers_available = transformers_importable e,
                 dbg_allow_advanced = allow_advanced e,
                 dbg_advanced_result_model = None, dbg_why_failed = None,
                 dbg_advanced_success = False\<rparr>
      in if allow_advanced e then
           (if transformers_importable e then
              (let (advanced_result, calls) = detect_ai_content_advanced e text;
                   dbg' = dbg\<lparr>dbg_advanced_result_model := Some (model advanced_result)\<rparr>
               in if model advanced_result = ''statistical_heuristics''
                  then (None, dbg'\<lparr>dbg_why_failed := Some ''advanced_detection_returned_heuristics''\<rparr>, calls)
                  else (Some advanced_result, dbg'\<lparr>dbg_advanced_success := True\<rparr>, calls))
            else (None, dbg\<lparr>dbg_why_failed := Some (''ImportError: '' @ error_message ImportError)\<rparr>, []))
         else (None, dbg\<lparr>dbg_why_failed := Some ''ALLOW_ADVANCED=0''\<rparr>, []))"

text \<open>\<^verbatim>\<open>analyze_ai_likelihood\<close> on \<^verbatim>\<open>None\<close> or a string, with the calls it made. The
  function first prepares the cache directory of the model library and records the
  installation in the diagnostic record; that part touches the file system and the
  process environment only and is left out, so the model starts at the length check of
  line 565.\<close>

definition analyze_run :: "env \<Rightarrow> string option \<Rightarrow> payload \<times> call list" where
  "analyze_run e text_opt =
     (case text_opt of
        None \<Rightarrow> (too_short, [])
      | Some text \<Rightarrow>
          if text = [] \<or> length (py_strip text) < 50 then (too_short, [])
          else
            (let heuristic_result = detect_ai_content_simple text;
                 (advanced_opt, dbg, calls) = try_advanced e text
             in case advanced_opt of
                  Some advanced_result \<Rightarrow>
                    (\<lparr>out_error = None,
                      out_ai_likelihood = ai_likelihood advanced_result,
                      out_confidence = confidence advanced_result,
                      out_indicators = indicators advanced_result,
                      out_model = Some (model advanced_result),
                      out_note = Some (note_text advanced_result),
                      out_heuristic_score = Some (ai_likelihood heuristic_result),
                      out_heuristic_indicators = Some (indicators heuristic_result),
                      out_heuristic_model = Some (model heuristic_result),
                      out_roberta_score = roberta_score advanced_result,
                      out_binoculars_score = binoculars_score advanced_result,
                      out_individual_results = individual_results advanced_result,
                      out_debug = Some dbg\<rparr>,
                     Heuristic # calls)
                | None \<Rightarrow>
                    (\<lparr>out_error = None,
                      out_ai_likelihood = ai_likelihood heuristic_result,
                      out_confidence = confidence heuristic_result,
                      out_indicators = indicators heuristic_result,
                      out_model = Some (model heuristic_result),
                      out_note = Some (note_text heuristic_result),
                      out_heuristic_score = None, out_heuristic_indicators = None,
                      out_heuristic_model = None,
                      out_roberta_score = None, out_binoculars_score = None,
                      out_individual_results = None,
                      out_debug = Some dbg\<rparr>,
                     Heuristic # calls)))"

definition analyze_ai_likelihood :: "env \<Rightarrow> string option \<Rightarrow> payload" where
  "analyze_ai_likelihood e text_opt = fst (analyze_run e text_opt)"

section \<open>Model cache\<close>

text \<open>\<^verbatim>\<open>_MODEL_CACHE\<close> is a dictionary from keys to loaded handles. The loader
  (\<^verbatim>\<open>from_pretrained\<close> and the move to the device) is a parameter, \<open>None\<close> where it
  raises; \<open>loads\<close> counts the calls of the loader per key.\<close>

record 'h cache_state =
  cache :: "string \<rightharpoonup> 'h"
  loads :: "string \<Rightarrow> nat"

definition empty_cache :: "'h cache_state" where
  "empty_cache = \<lparr>cache = Map.empty, loads = (\<lambda>_. 0)\<rparr>"

text \<open>One whole call of \<^verbatim>\<open>get_cached_model\<close>, nothing else running meanwhile.\<close>

definition get_cached_model ::
  "(string \<Rightarrow> 'h option) \<Rightarrow> string \<Rightarrow> 'h cache_state \<Rightarrow> (py_error + 'h) \<times> 'h cache_state" where
  "get_cached_model loader model_name s =
     (case cache s model_name of
        Some h \<Rightarrow> (Inr h, s)
      | None \<Rightarrow>
          (let s' = s\<lparr>loads := (loads s)(model_name := loads s model_name + 1)\<rparr>
           in case loader model_name of
                None \<Rightarrow> (Inl RuntimeError, s')
              | Some h \<Rightarrow> (Inr h, s'\<lparr>cache := (cache s')(model_name \<mapsto> h)\<rparr>)))"

definition get_cached_classifier ::
  "(string \<Rightarrow> 'h option) \<Rightarrow> string \<Rightarrow> 'h cache_state \<Rightarrow> (py_error + 'h) \<times> 'h cache_state" where
  "get_cached_classifier loader model_name s =
     get_cached_model loader (''classifier:'' @ model_name) s"

text \<open>A sequence of calls, each finished before the next starts.\<close>

fun get_all ::
  "(string \<Rightarrow> 'h option) \<Rightarrow> string list \<Rightarrow> 'h cache_state \<Rightarrow> 'h cache_state" where
  "get_all loader [] s = s"
| "get_all loader (k # ks) s = get_all loader ks (snd (get_cached_model loader k s))"

text \<open>Callers that overlap. A call of \<^verbatim>\<open>get_cached_model\<close> goes through its statements
  one at a time: the membership test of line 66, the load of lines 73 to 79, the store of
  line 82 and the return of line 90. Between two statements another thread may run,
  so a thread is the point its call has reached, and a schedule names the thread that
  takes each next step.\<close>

datatype 'h pc =
    AtTest string
  | AtLoad string
  | AtStore string 'h
  | Returned "py_error + 'h"

record 'h threads_state =
  shared :: "'h cache_state"
  pcs :: "'h pc list"

definition thread_step ::
  "(string \<Rightarrow> 'h option) \<Rightarrow> 'h pc \<Rightarrow> 'h cache_state \<Rightarrow> 'h pc \<times> 'h cache_state" where
  "thread_step loader p s =
     (case p of
        AtTest k \<Rightarrow>
          (case cache s k of
             None \<Rightarrow> (AtLoad k, s)
           | Some h \<Rightarrow> (Returned (Inr h), s))
      | AtLoad k \<Rightarrow>
          (let s' = s\<lparr>loads := (loads s)(k := loads s k + 1)\<rparr>
           in case loader k of
                None \<Rightarrow> (Returned (Inl RuntimeError), s')
              | Some h \<Rightarrow> (AtStore k h, s'))
      | AtStore k h \<Rightarrow> (Returned (Inr h), s\<lparr>cache := (cache s)(k \<mapsto> h)\<rparr>)
      | Returned r \<Rightarrow> (Returned r, s))"

definition sched_step ::
  "(string \<Rightarrow> 'h option) \<Rightarrow> 'h threads_state \<Rightarrow> nat \<Rightarrow> 'h threads_state" where
  "sched_step loader st i =
     (if i < length (pcs st) then
        (let (p', s') = thread_step loader (pcs st ! i) (shared st)
         in \<lparr>shared = s', pcs = (pcs st)[i := p']\<rparr>)
      else st)"

definition run_schedule ::
  "(string \<Rightarrow> 'h option) \<Rightarrow> nat list \<Rightarrow> 'h threads_state \<Rightarrow> 'h threads_state" where
  "run_schedule loader schedule st = foldl (sched_step loader) st schedule"

text \<open>Two callers asking for the same key, nothing cached yet.\<close>

definition two_callers :: "string \<Rightarrow> 'h threads_state" where
  "two_callers k = \<lparr>shared = empty_cache, pcs = [AtTest k, AtTest k]\<rparr>"

text \<open>Two invariants of runs of two callers of the key \<open>k\<close> whose load gives \<open>h\<close>.
  While neither caller has stored, the cache has no entry for \<open>k\<close> and the loads so far
  are those of the callers that stand before their store. Once both callers have found
  the key missing, each of them has loaded or is still to load: the loads so far and
  the loads to come are two.\<close>

definition has_loaded :: "string \<Rightarrow> 'h \<Rightarrow> 'h pc \<Rightarrow> nat" where
  "has_loaded k h p = (if p = AtStore k h then 1 else 0)"

definition before_store :: "string \<Rightarrow> 'h \<Rightarrow> 'h threads_state \<Rightarrow> bool" where
  "before_store k h st =
     (case pcs st of
        [p0, p1] \<Rightarrow>
          cache (shared st) k = None \<and>
          p0 \<in> {AtTest k, AtLoad k, AtStore k h} \<and> p1 \<in> {AtTest k, AtLoad k, AtStore k h} \<and>
          loads (shared st) k = has_loaded k h p0 + has_loaded k h p1
      | _ \<Rightarrow> False)"

definition to_load :: "string \<Rightarrow> 'h pc \<Rightarrow> nat" where
  "to_load k p = (if p = AtLoad k then 1 else 0)"

definition both_missed :: "string \<Rightarrow> 'h \<Rightarrow> 'h threads_state \<Rightarrow> bool" where
  "both_missed k h st =
     (case pcs st of
        [p0, p1] \<Rightarrow>
          p0 \<in> {AtLoad k, AtStore k h, Returned (Inr h)} \<and>
          p1 \<in> {AtLoad k, AtStore k h, Returned (Inr h)} \<and>
          loads (shared st) k + to_load k p0 + to_load k p1 = 2
      | _ \<Rightarrow> False)"

text \<open>Two more, for runs in which one caller finishes before the other starts. While
  a caller has not yet tested the cache, the other one runs as if alone: cache and
  load count are those of the point it has reached. Once one caller has returned with
  the key stored, the other finds it: one load, and no more.\<close>

definition alone :: "string \<Rightarrow> 'h \<Rightarrow> 'h cache_state \<Rightarrow> 'h pc \<Rightarrow> bool" where
  "alone k h s p =
     ((p = AtTest k \<and> cache s k = None \<and> loads s k = 0) \<or>
      (p = AtLoad k \<and> cache s k = None \<and> loads s k = 0) \<or>
      (p = AtStore k h \<and> cache s k = None \<and> loads s k = 1) \<or>
      (p = Returned (Inr h) \<and> cache s k = Some h \<and> loads s k = 1))"

definition one_waiting :: "string \<Rightarrow> 'h \<Rightarrow> 'h threads_state \<Rightarrow> bool" where
  "one_waiting k h st =
     (case pcs st of
        [p0, p1] \<Rightarrow>
          (if p1 = AtTest k then alone k h (shared st) p0 else True) \<and>
          (if p0 = AtTest k then alone k h (shared st) p1 else True)
      | _ \<Rightarrow> False)"

definition key_stored :: "string \<Rightarrow> 'h \<Rightarrow> 'h threads_state \<Rightarrow> bool" where
  "key_stored k h st =
     (case pcs st of
        [p0, p1] \<Rightarrow>
          cache (shared st) k = Some h \<and> loads (shared st) k = 1 \<and>
          p0 \<in> {AtTest k, Returned (Inr h)} \<and> p1 \<in> {AtTest k, Returned (Inr h)}
      | _ \<Rightarrow> False)"

section \<open>Inputs used in the claims\<close>

text \<open>The inputs the length check of \<^verbatim>\<open>analyze_ai_likelihood\<close> turns away: \<^verbatim>\<open>None\<close>, the empty
  string, and every string with fewer than 50 characters once stripped.\<close>

definition short_input :: "string option \<Rightarrow> bool" where
  "short_input text_opt =
     (case text_opt of None \<Rightarrow> True | Some text \<Rightarrow> text = [] \<or> length (py_strip text) < 50)"

text \<open>The range every result is to stay in.\<close>

definition in_range :: "real \<Rightarrow> real \<Rightarrow> bool" where
  "in_range likelihood conf = (0 \<le> likelihood \<and> likelihood \<le> 100 \<and> 0 \<le> conf \<and> conf \<le> 1)"

text \<open>A text of 60 characters; a text of 53 characters made of one word and three full
  stops, on which the heuristic scorer finds a single sentence length; and two
  installations: one where both models answer (the classifier with probability 0.0001,
  both language models with loss 1) and one where no model loads.\<close>

definition sample_text :: string where
  "sample_text = ''The quick brown fox jumps over the lazy dog again and again.''"

definition dotted_text :: string where
  "dotted_text = ''aaaaaaaaaaaaaaaaaaaaaaaaaaaaaaaaaaaaaaaaaaaaaaaaaa...''"

definition sample_env :: env where
  "sample_env =
     \<lparr>transformers_importable = True, torch_importable = True, allow_advanced = True,
      model_loads = (\<lambda>_. True), classify = (\<lambda>_. Some (1 / 10000)),
      lm_loss = (\<lambda>_ _. Some 1), roberta_first = True,
      fmt1 = (\<lambda>_. ''x''), str_round3 = (\<lambda>_. ''x'')\<rparr>"

definition offline_env :: env where
  "offline_env =
     \<lparr>transformers_importable = True, torch_importable = True, allow_advanced = True,
      model_loads = (\<lambda>_. False), classify = (\<lambda>_. None),
      lm_loss = (\<lambda>_ _. None), roberta_first = False,
      fmt1 = (\<lambda>_. ''x''), str_round3 = (\<lambda>_. ''x'')\<rparr>"

text \<open>An installation as \<open>sample_env\<close>, but with a classifier that gives every chunk
  the probability 0.8.\<close>

definition confident_env :: env where
  "confident_env = sample_env\<lparr>classify := (\<lambda>_. Some (8 / 10))\<rparr>"

section \<open>Properties of the string operations\<close>

lemma split_ws_words:
  "w \<in> set (split_ws cur s) \<Longrightarrow> \<forall>c\<in>set cur. \<not> is_space c \<Longrightarrow>
     w \<noteq> [] \<and> (\<forall>c\<in>set w. \<not> is_space c)"
proof (induction cur s rule: split_ws.induct)
  case (1 cur)
  then show ?case by (cases "cur = []") simp_all
next
  case (2 cur c cs)
  note mem = \<open>w \<in> set (split_ws cur (c # cs))\<close>
  note nosp = \<open>\<forall>c\<in>set cur. \<not> is_space c\<close>
  show ?case
  proof (cases "is_space c")
    case sp: True
    show ?thesis
    proof (cases "cur = []")
      case True
      then have "w \<in> set (split_ws [] cs)" using mem sp by simp
      then show ?thesis by (rule "2.IH"(1)[OF sp True]) simp
    next
      case False
      then have "w = cur \<or> w \<in> set (split_ws [] cs)" using mem sp by simp
      then show ?thesis
      proof
        assume "w = cur"
        then show ?thesis using False nosp by simp
      next
        assume "w \<in> set (split_ws [] cs)"
        then show ?thesis by (rule "2.IH"(2)[OF sp False]) simp
      qed
    qed
  next
    case False
    then have "w \<in> set (split_ws (cur @ [c]) cs)" using mem by simp
    then show ?thesis
    proof (rule "2.IH"(3)[OF False])
      show "\<forall>c\<in>set (cur @ [c]). \<not> is_space c" using nosp False by simp
    qed
  qed
qed

lemma py_split_words:
  "w \<in> set (py_split s) \<Longrightarrow> w \<noteq> [] \<and> (\<forall>c\<in>set w. \<not> is_space c)"
proof -
  assume "w \<in> set (py_split s)"
  then have "w \<in> set (split_ws [] s)" by (simp add: py_split_def)
  then show ?thesis by (rule split_ws_words) simp
qed

lemma split_ws_word:
  "\<forall>c\<in>set w. \<not> is_space c \<Longrightarrow> split_ws cur (w @ rest) = split_ws (cur @ w) rest"
  by (induction w arbitrary: cur) simp_all

lemma space_is_space: "is_space CHR '' ''"
  by (simp add: is_space_def)

text \<open>Splitting a chunk gives back the words it was joined from.\<close>

lemma split_ws_join:
  "\<forall>w\<in>set ws. w \<noteq> [] \<and> (\<forall>c\<in>set w. \<not> is_space c) \<Longrightarrow>
     split_ws [] (py_join '' '' ws) = ws"
proof (induction "'' ''" ws rule: py_join.induct)
  case 1
  then show ?case by simp
next
  case (2 w)
  then show ?case using split_ws_word[of w "[]" "[]"] by simp
next
  case (3 w v ws)
  have w: "w \<noteq> []" "\<forall>c\<in>set w. \<not> is_space c" using 3(2) by simp_all
  have rest: "\<forall>w\<in>set (v # ws). w \<noteq> [] \<and> (\<forall>c\<in>set w. \<not> is_space c)" using 3(2) by simp
  have "split_ws [] (w @ '' '' @ py_join '' '' (v # ws))
          = split_ws w ('' '' @ py_join '' '' (v # ws))"
    using split_ws_word[OF w(2), of "[]"] by simp
  also have "\<dots> = w # split_ws [] (py_join '' '' (v # ws))"
    using w(1) by (simp add: space_is_space)
  also have "\<dots> = w # v # ws" using 3(1)[OF rest] by simp
  finally show ?case by simp
qed

lemma py_split_join:
  "\<forall>w\<in>set ws. w \<noteq> [] \<and> (\<forall>c\<in>set w. \<not> is_space c) \<Longrightarrow>
     py_split (py_join '' '' ws) = ws"
  by (simp add: py_split_def split_ws_join)

lemma py_slice_window:
  "0 \<le> i \<Longrightarrow> 0 \<le> cs \<Longrightarrow> py_slice xs i (i + cs) = take (nat cs) (drop (nat i) xs)"
proof -
  assume i: "0 \<le> i" and cs: "0 \<le> cs"
  show ?thesis
  proof (cases "i \<le> int (length xs)")
    case True
    have "take (nat (min (i + cs) (int (length xs)) - i)) (drop (nat i) xs)
            = take (nat cs) (drop (nat i) xs)"
    proof (cases "i + cs \<le> int (length xs)")
      case True
      then show ?thesis by (simp add: min_def)
    next
      case False
      then have "length (drop (nat i) xs) \<le> nat cs" using i by simp
      moreover have "length (drop (nat i) xs) \<le> nat (int (length xs) - i)" using i by simp
      ultimately show ?thesis using False by (simp add: min_def)
    qed
    then show ?thesis using True i cs by (simp add: py_slice_def Let_def min_def)
  next
    case False
    then show ?thesis using i cs by (simp add: py_slice_def Let_def min_def)
  qed
qed

lemma py_range_pos:
  assumes s: "0 < step"
  shows "py_range 0 (int n) step =
     Inr (map (\<lambda>k. int k * step) [0 ..< (n + nat step - 1) div nat step])"
proof -
  have "(int n + step - 1) div step = int ((n + nat step - 1) div nat step)"
    using s by (simp add: zdiv_int of_nat_diff)
  then have "nat ((int n + step - 1) div step) = (n + nat step - 1) div nat step"
    by simp
  then show ?thesis using s by (simp add: py_range_def)
qed

section \<open>Properties of the chunker\<close>

text \<open>The loop collects, in order, the windows that have at least 50 words.\<close>

lemma foldl_chunk_step:
  "foldl (chunk_step words cs) acc idxs =
     acc @ map (py_join '' '')
             (filter (\<lambda>w. 50 \<le> length w) (map (\<lambda>i. py_slice words i (i + cs)) idxs))"
  by (induction idxs arbitrary: acc) (simp_all add: chunk_step_def Let_def)

lemma filter_takeWhile_antimono:
  "(\<And>i j. i < j \<Longrightarrow> j < length xs \<Longrightarrow> P (xs ! j) \<Longrightarrow> P (xs ! i)) \<Longrightarrow>
     filter P xs = takeWhile P xs"
proof (induction xs)
  case Nil
  then show ?case by simp
next
  case (Cons x xs)
  have tl: "filter P xs = takeWhile P xs"
  proof (rule Cons.IH)
    fix i j assume "i < j" "j < length xs" "P (xs ! j)"
    then show "P (xs ! i)" using Cons.prems[of "Suc i" "Suc j"] by simp
  qed
  show ?case
  proof (cases "P x")
    case True
    then show ?thesis using tl by simp
  next
    case False
    have "\<not> P y" if "y \<in> set xs" for y
    proof -
      from that obtain j where "j < length xs" "xs ! j = y" by (auto simp: in_set_conv_nth)
      then show ?thesis using Cons.prems[of 0 "Suc j"] False by auto
    qed
    then have "filter P xs = []" by (simp add: filter_empty_conv)
    then show ?thesis using False by simp
  qed
qed

text \<open>Later windows are never longer than earlier ones, so the windows that are too
  short are the last ones.\<close>

lemma windows_filter_takeWhile:
  "filter (\<lambda>w. m \<le> length w) (windows ws width stride)
     = takeWhile (\<lambda>w. m \<le> length w) (windows ws width stride)"
proof (rule filter_takeWhile_antimono)
  fix i j
  assume ij: "i < j" and j: "j < length (windows ws width stride)"
    and P: "m \<le> length (windows ws width stride ! j)"
  have le: "i * stride \<le> j * stride" using ij by simp
  have "m \<le> min width (length ws - j * stride)"
    using j P by (simp add: windows_def)
  then have "m \<le> min width (length ws - i * stride)"
    using le by linarith
  then show "m \<le> length (windows ws width stride ! i)"
    using ij j by (simp add: windows_def)
qed

lemma windows_words:
  "w \<in> set (windows ws width stride) \<Longrightarrow> set w \<subseteq> set ws \<and> length w \<le> width"
  by (auto simp: windows_def dest: in_set_takeD in_set_dropD)

lemma window_at:
  assumes "0 \<le> cs" and "0 < s"
  shows "py_slice ws (int k * s) (int k * s + cs) = take (nat cs) (drop (k * nat s) ws)"
proof -
  have "nat (int k * s) = k * nat s" by (simp add: nat_mult_distrib)
  moreover have "0 \<le> int k * s" using assms(2) by simp
  ultimately show ?thesis using py_slice_window[of "int k * s" cs ws] assms(1) by simp
qed

lemma chunk_text_unfold:
  assumes "cs < int (length (py_split t))"
    and "py_range 0 (int (length (py_split t))) (cs - ov) = Inr idxs"
  shows "chunk_text t cs ov = Inr (foldl (chunk_step (py_split t) cs) [] idxs)"
  using assms by (simp add: chunk_text_def)

lemma chunk_text_long:
  assumes "cs < int (length (py_split t))" and "ov < cs" and "0 \<le> cs"
  shows "chunk_text t cs ov =
     Inr (map (py_join '' '')
            (filter (\<lambda>w. 50 \<le> length w) (windows (py_split t) (nat cs) (nat (cs - ov)))))"
proof -
  have step: "0 < cs - ov" using assms by simp
  have sl: "map (\<lambda>i. py_slice (py_split t) i (i + cs)) (map (\<lambda>k. int k * (cs - ov)) ks)
        = map (\<lambda>k. take (nat cs) (drop (k * nat (cs - ov)) (py_split t))) ks" for ks
    by (simp only: map_map comp_def window_at[OF assms(3) step])
  show ?thesis
    unfolding chunk_text_unfold[OF assms(1) py_range_pos[OF step]] foldl_chunk_step sl windows_def
    by simp
qed

lemma windows_first:
  assumes s: "0 < stride" and w: "width < length ws"
  shows "\<exists>rest. windows ws width stride = take width ws # rest"
proof -
  have "stride \<le> length ws + stride - 1" using w by simp
  then have "stride div stride \<le> (length ws + stride - 1) div stride"
    by (rule div_le_mono)
  then have "1 \<le> (length ws + stride - 1) div stride" using s by simp
  then obtain m where m: "(length ws + stride - 1) div stride = Suc m"
    by (cases "(length ws + stride - 1) div stride") simp_all
  have "[0 ..< Suc m] = 0 # [Suc 0 ..< Suc m]" by (simp add: upt_rec)
  then show ?thesis unfolding windows_def m by simp
qed

lemma chunk_window_words:
  assumes "w \<in> set (windows (py_split t) width stride)"
  shows "py_split (py_join '' '' w) = w"
proof (rule py_split_join)
  show "\<forall>v\<in>set w. v \<noteq> [] \<and> (\<forall>c\<in>set v. \<not> is_space c)"
  proof
    fix v assume "v \<in> set w"
    then have "v \<in> set (py_split t)" using windows_words[OF assms] by blast
    then show "v \<noteq> [] \<and> (\<forall>c\<in>set v. \<not> is_space c)" by (rule py_split_words)
  qed
qed

lemma split_ws_sample:
  "split_ws [] (concat (replicate n ''a '')) = replicate n ''a''"
  by (induction n) (simp_all add: is_space_def)

lemma py_split_sample: "py_split (concat (replicate n ''a '')) = replicate n ''a''"
  by (simp add: py_split_def split_ws_sample)

lemma windows_two:
  assumes "length ws = Suc width" and "0 < stride" and "stride \<le> width"
    and "width < 2 * stride"
  shows "windows ws width stride = [take width ws, drop stride ws]"
proof -
  have "(width + stride) div stride = 2"
  proof (rule div_nat_eqI)
    show "stride * 2 \<le> width + stride" using assms(3) by simp
    show "width + stride < stride * Suc 2" using assms(4) by simp
  qed
  moreover have "length ws + stride - 1 = width + stride" using assms(1) by simp
  ultimately have n: "(length ws + stride - 1) div stride = 2" by simp
  have u: "[0 ..< 2] = [0, Suc 0]" by (simp add: upt_rec)
  have "take width (drop stride ws) = drop stride ws" using assms(1,2) by simp
  then show ?thesis unfolding windows_def n u by simp
qed

lemma chunk_text_one_more:
  assumes "int (length (py_split t)) = cs + 1" and "0 \<le> ov" and "ov < cs"
    and "cs < 2 * (cs - ov)" and "50 \<le> cs - ov" and "50 \<le> ov"
  shows "chunk_text t cs ov =
           Inr [py_join '' '' (take (nat cs) (py_split t)),
                py_join '' '' (drop (nat (cs - ov)) (py_split t))]"
proof -
  have len: "length (py_split t) = Suc (nat cs)" using assms(1,2,3) by linarith
  have s1: "0 < nat (cs - ov)" using assms(3) by simp
  have s2: "nat (cs - ov) \<le> nat cs" using assms(2,3) by simp
  have "int (nat cs) < int (2 * nat (cs - ov))" using assms(2,3,4) by simp
  then have s3: "nat cs < 2 * nat (cs - ov)" by (simp only: of_nat_less_iff)
  have w: "windows (py_split t) (nat cs) (nat (cs - ov))
             = [take (nat cs) (py_split t), drop (nat (cs - ov)) (py_split t)]"
    by (rule windows_two[OF len s1 s2 s3])
  have lt: "cs < int (length (py_split t))" using assms(1) by simp
  have cs0: "0 \<le> cs" using assms(2,3) by simp
  have l1: "50 \<le> length (take (nat cs) (py_split t))" using len assms(2,5) by simp
  have "int (nat (cs - ov) + 50) \<le> int (Suc (nat cs))" using assms(2,3,6) by simp
  then have "nat (cs - ov) + 50 \<le> Suc (nat cs)" by (simp only: of_nat_le_iff)
  then have l2: "50 \<le> length (drop (nat (cs - ov)) (py_split t))" using len by simp
  show ?thesis
    unfolding chunk_text_long[OF lt assms(3) cs0] w using l1 l2 by simp
qed

section \<open>Claims about the chunker\<close>

text \<open>
  Claim C5, as the code has it. A text of at most \<open>chunk_size\<close> words comes back as the
  single chunk that is the text itself. A longer text, when \<open>overlap < chunk_size\<close> (and
  \<open>chunk_size\<close> is not negative), gives the windows of \<open>chunk_size\<close> words at stride
  \<open>chunk_size - overlap\<close>, each joined by single blanks, without the windows of fewer than
  50 words; the windows left out are all the windows from the first short one on, so
  only a trailing run is lost. With the configured parameters, 400/100 and 700/150, a
  text of exactly \<open>chunk_size + 1\<close> words gives two chunks: the first \<open>chunk_size\<close> words,
  and the words from the stride on.
\<close>

theorem chunk_text_spec:
  "(int (length (py_split t)) \<le> cs \<longrightarrow> chunk_text t cs ov = Inr [t]) \<and>
   (cs < int (length (py_split t)) \<and> 0 \<le> cs \<and> ov < cs \<longrightarrow>
      chunk_text t cs ov =
        Inr (map (py_join '' '')
               (filter (\<lambda>w. 50 \<le> length w) (windows (py_split t) (nat cs) (nat (cs - ov)))))
      \<and> filter (\<lambda>w. 50 \<le> length w) (windows (py_split t) (nat cs) (nat (cs - ov)))
          = takeWhile (\<lambda>w. 50 \<le> length w) (windows (py_split t) (nat cs) (nat (cs - ov)))) \<and>
   (length (py_split t) = 401 \<longrightarrow>
      chunk_text t 400 100 =
        Inr [py_join '' '' (take 400 (py_split t)), py_join '' '' (drop 300 (py_split t))]) \<and>
   (length (py_split t) = 701 \<longrightarrow>
      chunk_text t 700 150 =
        Inr [py_join '' '' (take 700 (py_split t)), py_join '' '' (drop 550 (py_split t))])"
proof (intro conjI impI)
  assume "int (length (py_split t)) \<le> cs"
  then show "chunk_text t cs ov = Inr [t]" by (simp add: chunk_text_def)
next
  assume "cs < int (length (py_split t)) \<and> 0 \<le> cs \<and> ov < cs"
  then show "chunk_text t cs ov =
        Inr (map (py_join '' '')
               (filter (\<lambda>w. 50 \<le> length w) (windows (py_split t) (nat cs) (nat (cs - ov)))))"
    by (intro chunk_text_long) simp_all
next
  show "filter (\<lambda>w. 50 \<le> length w) (windows (py_split t) (nat cs) (nat (cs - ov)))
          = takeWhile (\<lambda>w. 50 \<le> length w) (windows (py_split t) (nat cs) (nat (cs - ov)))"
    by (rule windows_filter_takeWhile)
next
  assume "length (py_split t) = 401"
  then show "chunk_text t 400 100 =
        Inr [py_join '' '' (take 400 (py_split t)), py_join '' '' (drop 300 (py_split t))]"
    using chunk_text_one_more[of t 400 100] by simp
next
  assume "length (py_split t) = 701"
  then show "chunk_text t 700 150 =
        Inr [py_join '' '' (take 700 (py_split t)), py_join '' '' (drop 550 (py_split t))]"
    using chunk_text_one_more[of t 700 150] by simp
qed

text \<open>The statement at a two-word text, at 60 words with windows of 50 at stride 40, and
  at 401 and 701 words with the configured parameters.\<close>

theorem chunk_text_spec_witness:
  "(int (length (py_split ''a b'')) \<le> 5 \<and> chunk_text ''a b'' 5 0 = Inr [''a b'']) \<and>
   (50 < int (length (py_split (concat (replicate 60 ''a '')))) \<and> (0::int) \<le> 50 \<and> (10::int) < 50 \<and>
      chunk_text (concat (replicate 60 ''a '')) 50 10 = Inr [py_join '' '' (replicate 50 ''a'')]) \<and>
   (length (py_split (concat (replicate 401 ''a ''))) = 401 \<and>
      chunk_text (concat (replicate 401 ''a '')) 400 100 =
        Inr [py_join '' '' (replicate 400 ''a''), py_join '' '' (replicate 101 ''a'')]) \<and>
   (length (py_split (concat (replicate 701 ''a ''))) = 701 \<and>
      chunk_text (concat (replicate 701 ''a '')) 700 150 =
        Inr [py_join '' '' (replicate 700 ''a''), py_join '' '' (replicate 151 ''a'')])"
proof (intro conjI)
  show "int (length (py_split ''a b'')) \<le> 5"
    by (simp add: py_split_def is_space_def)
  then show "chunk_text ''a b'' 5 0 = Inr [''a b'']"
    using chunk_text_spec[of "''a b''" 5 0] by blast
next
  show a: "50 < int (length (py_split (concat (replicate 60 ''a ''))))"
    by (simp add: py_split_sample)
  show "(0::int) \<le> 50" "(10::int) < 50" by simp_all
  have w: "windows (replicate 60 ''a'') 50 40 = [replicate 50 ''a'', replicate 20 ''a'']"
    by (simp add: windows_def upt_rec)
  have "chunk_text (concat (replicate 60 ''a '')) 50 10 =
        Inr (map (py_join '' '')
               (filter (\<lambda>w. 50 \<le> length w)
                  (windows (py_split (concat (replicate 60 ''a ''))) (nat 50) (nat (50 - 10)))))"
    using chunk_text_spec[of "concat (replicate 60 ''a '')" 50 10] a by simp
  then show "chunk_text (concat (replicate 60 ''a '')) 50 10 = Inr [py_join '' '' (replicate 50 ''a'')]"
    by (simp add: py_split_sample w)
next
  show a: "length (py_split (concat (replicate 401 ''a ''))) = 401"
    by (simp add: py_split_sample)
  show "chunk_text (concat (replicate 401 ''a '')) 400 100 =
        Inr [py_join '' '' (replicate 400 ''a''), py_join '' '' (replicate 101 ''a'')]"
    using chunk_text_spec[of "concat (replicate 401 ''a '')" 400 100,
        THEN conjunct2, THEN conjunct2, THEN conjunct1] a
    by (simp add: py_split_sample)
next
  show a: "length (py_split (concat (replicate 701 ''a ''))) = 701"
    by (simp add: py_split_sample)
  show "chunk_text (concat (replicate 701 ''a '')) 700 150 =
        Inr [py_join '' '' (replicate 700 ''a''), py_join '' '' (replicate 151 ''a'')]"
    using chunk_text_spec[of "concat (replicate 701 ''a '')" 700 150,
        THEN conjunct2, THEN conjunct2, THEN conjunct2] a
    by (simp add: py_split_sample)
qed

text \<open>The statement does not extend to every \<open>chunk_size\<close> and \<open>overlap\<close>: when the two
  are equal the stride is zero and \<^verbatim>\<open>range\<close> raises; and when \<open>chunk_size\<close> is below 50
  every window is left out, also the full ones.\<close>

theorem chunk_text_zero_stride_counterexample:
  "int (length (py_split ''a b'')) > 1 \<and> chunk_text ''a b'' 1 1 = Inl ValueError"
  by (simp add: chunk_text_def py_split_def py_range_def is_space_def)

lemma chunk_text_small_window:
  "chunk_text ''a b c'' 2 0 = Inr []"
  by (simp add: chunk_text_def py_split_def py_range_def is_space_def chunk_step_def py_slice_def upt_rec)

text \<open>
  Claim C10. For a text of more than \<open>chunk_size\<close> words, with \<open>chunk_size\<close> at least 50
  and \<open>0 \<le> overlap < chunk_size\<close>, \<^verbatim>\<open>chunk_text\<close> returns at least one chunk, and every
  chunk it returns has at least 50 and at most \<open>chunk_size\<close> words (counted as the
  detectors count them, by splitting the chunk again).
\<close>

theorem chunk_text_chunks:
  assumes "cs < int (length (py_split t))" and "50 \<le> cs" and "0 \<le> ov" and "ov < cs"
  shows "\<exists>chunks. chunk_text t cs ov = Inr chunks \<and> chunks \<noteq> [] \<and>
           (\<forall>c\<in>set chunks. 50 \<le> length (py_split c) \<and> int (length (py_split c)) \<le> cs)"
proof -
  define wins where "wins = windows (py_split t) (nat cs) (nat (cs - ov))"
  define chs where "chs = map (py_join '' '') (filter (\<lambda>w. 50 \<le> length w) wins)"
  have cs0: "0 \<le> cs" using assms(2) by simp
  have eq: "chunk_text t cs ov = Inr chs"
    unfolding chs_def wins_def by (rule chunk_text_long[OF assms(1) assms(4) cs0])
  have "0 < nat (cs - ov)" "nat cs < length (py_split t)" using assms by simp_all
  then obtain rest where first: "wins = take (nat cs) (py_split t) # rest"
    unfolding wins_def using windows_first by blast
  have "50 \<le> length (take (nat cs) (py_split t))" using assms(1,2) by simp
  then have ne: "chs \<noteq> []" unfolding chs_def first by simp
  have "50 \<le> length (py_split c) \<and> int (length (py_split c)) \<le> cs" if "c \<in> set chs" for c
  proof -
    from that obtain w where w: "w \<in> set wins" "50 \<le> length w" "c = py_join '' '' w"
      unfolding chs_def by auto
    have "py_split c = w" using chunk_window_words w(1,3) unfolding wins_def by simp
    moreover have "length w \<le> nat cs" using windows_words w(1) unfolding wins_def by blast
    ultimately show ?thesis using w(2) cs0 by simp
  qed
  then show ?thesis using eq ne by blast
qed


theorem chunk_text_chunks_witness:
  "50 < int (length (py_split (concat (replicate 60 ''a '')))) \<and> (50::int) \<le> 50
     \<and> (0::int) \<le> 10 \<and> (10::int) < 50 \<and>
   (\<exists>chunks. chunk_text (concat (replicate 60 ''a '')) 50 10 = Inr chunks \<and> chunks \<noteq> [] \<and>
      (\<forall>c\<in>set chunks. 50 \<le> length (py_split c) \<and> int (length (py_split c)) \<le> 50))"
proof -
  have a: "50 < int (length (py_split (concat (replicate 60 ''a ''))))"
    by (simp add: py_split_sample)
  show ?thesis using a chunk_text_chunks[OF a, of 10] by simp
qed

section \<open>Claims about the entry point\<close>

lemma sample_text_long: "\<not> short_input (Some sample_text)"
  by (simp add: short_input_def sample_text_def py_strip_def is_space_def)

lemma dotted_text_long: "\<not> short_input (Some dotted_text)"
  by (simp add: short_input_def dotted_text_def py_strip_def is_space_def)

text \<open>
  Claim C1. On \<^verbatim>\<open>None\<close>, on the empty string and on every text whose stripped length is
  below 50, \<^verbatim>\<open>analyze_ai_likelihood\<close> returns likelihood 50, confidence 0 and no
  indicators, whatever the text and the installation, and it has called neither the
  heuristic scorer nor a model-backed detector: the list of calls is empty.
\<close>

theorem short_input_result:
  "short_input text_opt \<Longrightarrow>
     out_ai_likelihood (analyze_ai_likelihood e text_opt) = 50 \<and>
     out_confidence (analyze_ai_likelihood e text_opt) = 0 \<and>
     out_indicators (analyze_ai_likelihood e text_opt) = [] \<and>
     snd (analyze_run e text_opt) = []"
  by (cases text_opt)
     (auto simp: short_input_def analyze_ai_likelihood_def analyze_run_def too_short_def)

theorem short_input_result_witness:
  "short_input None \<and> short_input (Some '''') \<and> short_input (Some ''  too short  '') \<and>
   out_ai_likelihood (analyze_ai_likelihood sample_env (Some ''  too short  '')) = 50 \<and>
   out_confidence (analyze_ai_likelihood sample_env (Some ''  too short  '')) = 0 \<and>
   out_indicators (analyze_ai_likelihood sample_env (Some ''  too short  '')) = [] \<and>
   snd (analyze_run sample_env (Some ''  too short  '')) = [] \<and>
   out_ai_likelihood (analyze_ai_likelihood sample_env None) = 50 \<and>
   snd (analyze_run sample_env None) = []"
proof -
  have a: "short_input (Some ''  too short  '')"
    by (simp add: short_input_def py_strip_def is_space_def)
  have b: "short_input None" "short_input (Some '''')" by (simp_all add: short_input_def)
  show ?thesis
    using a b short_input_result[OF a, of sample_env] short_input_result[OF b(1), of sample_env]
    by simp
qed

text \<open>
  Claim C9. The result for an input the length check turns away has the key \<^verbatim>\<open>error\<close>, with the
  message that the text is too short, and has neither \<^verbatim>\<open>model\<close> nor \<^verbatim>\<open>note\<close>; every
  other result of the entry point has \<^verbatim>\<open>model\<close> and \<^verbatim>\<open>note\<close> and no \<^verbatim>\<open>error\<close>.
\<close>

theorem short_input_shape:
  "(short_input text_opt \<longrightarrow>
      out_error (analyze_ai_likelihood e text_opt) = Some ''Text too short for AI detection'' \<and>
      out_model (analyze_ai_likelihood e text_opt) = None \<and>
      out_note (analyze_ai_likelihood e text_opt) = None) \<and>
   (\<not> short_input text_opt \<longrightarrow>
      out_error (analyze_ai_likelihood e text_opt) = None \<and>
      out_model (analyze_ai_likelihood e text_opt) \<noteq> None \<and>
      out_note (analyze_ai_likelihood e text_opt) \<noteq> None)"
proof (cases text_opt)
  case None
  then show ?thesis
    by (simp add: short_input_def analyze_ai_likelihood_def analyze_run_def too_short_def)
next
  case (Some t)
  show ?thesis
  proof (cases "short_input (Some t)")
    case True
    then show ?thesis using Some
      by (auto simp: short_input_def analyze_ai_likelihood_def analyze_run_def too_short_def)
  next
    case False
    then have long: "\<not> (t = [] \<or> length (py_strip t) < 50)"
      by (simp add: short_input_def)
    obtain a d c where t: "try_advanced e t = (a, d, c)" by (cases "try_advanced e t") auto
    show ?thesis using Some False long t
      by (cases a) (simp_all add: analyze_ai_likelihood_def analyze_run_def Let_def)
  qed
qed

theorem short_input_shape_witness:
  "short_input None \<and>
   out_error (analyze_ai_likelihood sample_env None) = Some ''Text too short for AI detection'' \<and>
   out_model (analyze_ai_likelihood sample_env None) = None \<and>
   out_note (analyze_ai_likelihood sample_env None) = None \<and>
   \<not> short_input (Some sample_text) \<and>
   out_error (analyze_ai_likelihood sample_env (Some sample_text)) = None \<and>
   out_model (analyze_ai_likelihood sample_env (Some sample_text)) \<noteq> None \<and>
   out_note (analyze_ai_likelihood sample_env (Some sample_text)) \<noteq> None"
proof -
  have b: "short_input None" by (simp add: short_input_def)
  show ?thesis
    using b sample_text_long short_input_shape[of None sample_env]
      short_input_shape[of "Some sample_text" sample_env]
    by simp
qed

section \<open>Claims about the fallback chain\<close>

lemma identify_none: "foldl identify (None, None) [None, None] = (None, None)"
  by (simp add: identify_def)

lemma advanced_both_fail:
  assumes "detect_roberta e t = None" and "detect_binoculars e t = None"
  shows "fst (detect_ai_content_advanced e t) = plain (detect_ai_content_simple t)"
  using assms by (simp add: detect_ai_content_advanced_def Let_def identify_def)

lemma simple_ok:
  "heuristic_checks t = Inr (score, inds) \<Longrightarrow>
     model (detect_ai_content_simple t) = ''statistical_heuristics'' \<and>
     confidence (detect_ai_content_simple t) = 7/10 \<and>
     ai_likelihood (detect_ai_content_simple t) = real (min 100 score) \<and>
     indicators (detect_ai_content_simple t) = inds"
  by (simp add: detect_ai_content_simple_def)

lemma simple_error:
  "heuristic_checks t = Inl err \<Longrightarrow>
     model (detect_ai_content_simple t) = ''fallback'' \<and>
     confidence (detect_ai_content_simple t) = 3/10 \<and>
     ai_likelihood (detect_ai_content_simple t) = 50 \<and>
     indicators (detect_ai_content_simple t) = [''Error during analysis'']"
  by (simp add: detect_ai_content_simple_def)

lemma analyze_both_fail:
  assumes "detect_roberta e t = None" and "detect_binoculars e t = None"
    and "\<not> short_input (Some t)"
  shows "out_model (analyze_ai_likelihood e (Some t)) = Some (model (detect_ai_content_simple t)) \<and>
         out_confidence (analyze_ai_likelihood e (Some t)) = confidence (detect_ai_content_simple t) \<and>
         out_ai_likelihood (analyze_ai_likelihood e (Some t)) = ai_likelihood (detect_ai_content_simple t)"
proof -
  have long: "\<not> (t = [] \<or> length (py_strip t) < 50)" using assms(3) by (simp add: short_input_def)
  obtain r c where adv: "detect_ai_content_advanced e t = (r, c)"
    by (cases "detect_ai_content_advanced e t") auto
  then have r: "r = plain (detect_ai_content_simple t)"
    using advanced_both_fail[OF assms(1,2)] by simp
  show ?thesis
    using long adv r
    by (simp add: analyze_ai_likelihood_def analyze_run_def try_advanced_def Let_def plain_def)
qed

lemma sample_text_checks:
  "heuristic_checks sample_text = Inr (20, [''Lack of personal pronouns''])"
  by (simp add: heuristic_checks_def later_checks_def check_uniformity_def check_starters_def
      check_pronouns_def check_transitions_def check_contractions_def sentence_starts_def py_split_def
      py_strip_def py_lower_def lower_char_def is_space_def personal_pronouns_def
      transitions_def contractions_def sample_text_def)

lemma dotted_text_checks: "heuristic_checks dotted_text = Inl StatisticsError"
  by (simp add: heuristic_checks_def check_uniformity_def sentence_lengths_def coeff_var_def
      stdev_def mean_def py_split_def py_strip_def is_space_def dotted_text_def)

lemma offline_roberta: "detect_roberta offline_env t = None"
  by (simp add: detect_roberta_def offline_env_def)

lemma binoculars_chunk_offline: "binoculars_chunk offline_env ic = None"
  by (simp add: binoculars_chunk_def compute_loss_def offline_env_def)

lemma those_None: "xs \<noteq> [] \<Longrightarrow> \<forall>x\<in>set xs. x = None \<Longrightarrow> those xs = None"
  by (cases xs) simp_all

lemma offline_binoculars: "detect_binoculars offline_env t = None"
proof (cases "chunk_text t 700 150")
  case (Inl e)
  then show ?thesis by (simp add: detect_binoculars_def)
next
  case (Inr chunks)
  show ?thesis
  proof (cases "chunks = []")
    case True
    then show ?thesis using Inr by (simp add: detect_binoculars_def score_stats_def)
  next
    case False
    then have "those (map (binoculars_chunk offline_env) (zip [0 ..< length chunks] chunks)) = None"
      by (intro those_None) (auto simp: binoculars_chunk_offline)
    then show ?thesis using Inr by (simp add: detect_binoculars_def)
  qed
qed

text \<open>
  Claim C3. When both model-backed detectors return nothing, the ensemble hands back
  the heuristic scorer's result, and so does the entry point (on a text that passes the
  length check): the model tag of the statistical heuristics with confidence 0.7; and when the
  heuristic scorer raises inside, likelihood 50, confidence 0.3 and the tag
  \<^verbatim>\<open>fallback\<close> instead.
\<close>

theorem both_detectors_fail:
  assumes "detect_roberta e t = None" and "detect_binoculars e t = None"
  shows "(\<forall>score inds. heuristic_checks t = Inr (score, inds) \<longrightarrow>
            model (fst (detect_ai_content_advanced e t)) = ''statistical_heuristics'' \<and>
            confidence (fst (detect_ai_content_advanced e t)) = 7/10 \<and>
            (\<not> short_input (Some t) \<longrightarrow>
               out_model (analyze_ai_likelihood e (Some t)) = Some ''statistical_heuristics'' \<and>
               out_confidence (analyze_ai_likelihood e (Some t)) = 7/10)) \<and>
         (\<forall>err. heuristic_checks t = Inl err \<longrightarrow>
            ai_likelihood (fst (detect_ai_content_advanced e t)) = 50 \<and>
            confidence (fst (detect_ai_content_advanced e t)) = 3/10 \<and>
            model (fst (detect_ai_content_advanced e t)) = ''fallback'' \<and>
            (\<not> short_input (Some t) \<longrightarrow>
               out_ai_likelihood (analyze_ai_likelihood e (Some t)) = 50 \<and>
               out_confidence (analyze_ai_likelihood e (Some t)) = 3/10 \<and>
               out_model (analyze_ai_likelihood e (Some t)) = Some ''fallback''))"
proof (intro conjI allI impI)
  fix score inds
  assume ok: "heuristic_checks t = Inr (score, inds)"
  show "model (fst (detect_ai_content_advanced e t)) = ''statistical_heuristics''"
    using advanced_both_fail[OF assms] simple_ok[OF ok] by (simp add: plain_def)
  show "confidence (fst (detect_ai_content_advanced e t)) = 7/10"
    using advanced_both_fail[OF assms] simple_ok[OF ok] by (simp add: plain_def)
  assume long: "\<not> short_input (Some t)"
  show "out_model (analyze_ai_likelihood e (Some t)) = Some ''statistical_heuristics''"
    using analyze_both_fail[OF assms long] simple_ok[OF ok] by simp
  show "out_confidence (analyze_ai_likelihood e (Some t)) = 7/10"
    using analyze_both_fail[OF assms long] simple_ok[OF ok] by simp
next
  fix err
  assume bad: "heuristic_checks t = Inl err"
  show "ai_likelihood (fst (detect_ai_content_advanced e t)) = 50"
    using advanced_both_fail[OF assms] simple_error[OF bad] by (simp add: plain_def)
  show "confidence (fst (detect_ai_content_advanced e t)) = 3/10"
    using advanced_both_fail[OF assms] simple_error[OF bad] by (simp add: plain_def)
  show "model (fst (detect_ai_content_advanced e t)) = ''fallback''"
    using advanced_both_fail[OF assms] simple_error[OF bad] by (simp add: plain_def)
  assume long: "\<not> short_input (Some t)"
  show "out_ai_likelihood (analyze_ai_likelihood e (Some t)) = 50"
    using analyze_both_fail[OF assms long] simple_error[OF bad] by simp
  show "out_confidence (analyze_ai_likelihood e (Some t)) = 3/10"
    using analyze_both_fail[OF assms long] simple_error[OF bad] by simp
  show "out_model (analyze_ai_likelihood e (Some t)) = Some ''fallback''"
    using analyze_both_fail[OF assms long] simple_error[OF bad] by simp
qed

text \<open>Both cases occur: with no model loading, \<open>sample_text\<close> is scored by the
  heuristics, and on \<open>dotted_text\<close> the heuristic scorer raises.\<close>

theorem both_detectors_fail_witness:
  "detect_roberta offline_env sample_text = None \<and>
   detect_binoculars offline_env sample_text = None \<and>
   heuristic_checks sample_text = Inr (20, [''Lack of personal pronouns'']) \<and>
   \<not> short_input (Some sample_text) \<and>
   model (fst (detect_ai_content_advanced offline_env sample_text)) = ''statistical_heuristics'' \<and>
   confidence (fst (detect_ai_content_advanced offline_env sample_text)) = 7/10 \<and>
   out_model (analyze_ai_likelihood offline_env (Some sample_text)) = Some ''statistical_heuristics'' \<and>
   out_confidence (analyze_ai_likelihood offline_env (Some sample_text)) = 7/10 \<and>
   detect_roberta offline_env dotted_text = None \<and>
   detect_binoculars offline_env dotted_text = None \<and>
   heuristic_checks dotted_text = Inl StatisticsError \<and>
   \<not> short_input (Some dotted_text) \<and>
   ai_likelihood (fst (detect_ai_content_advanced offline_env dotted_text)) = 50 \<and>
   confidence (fst (detect_ai_content_advanced offline_env dotted_text)) = 3/10 \<and>
   model (fst (detect_ai_content_advanced offline_env dotted_text)) = ''fallback'' \<and>
   out_ai_likelihood (analyze_ai_likelihood offline_env (Some dotted_text)) = 50 \<and>
   out_confidence (analyze_ai_likelihood offline_env (Some dotted_text)) = 3/10 \<and>
   out_model (analyze_ai_likelihood offline_env (Some dotted_text)) = Some ''fallback''"
  using both_detectors_fail[OF offline_roberta offline_binoculars, of sample_text]
    both_detectors_fail[OF offline_roberta offline_binoculars, of dotted_text]
    offline_roberta offline_binoculars sample_text_checks dotted_text_checks
    sample_text_long dotted_text_long
  by simp

section \<open>Properties of the detectors\<close>

lemma roberta_report_fields:
  "ai_likelihood (roberta_report e chunks rs (avg, mn, mx, std)) = round2 avg"
  "confidence (roberta_report e chunks rs (avg, mn, mx, std))
     = (if std < 10 then 92/100 else if std < 20 then 85/100 else 78/100)"
  "model (roberta_report e chunks rs (avg, mn, mx, std)) = roberta_name"
  by (simp_all add: roberta_report_def)

lemma binoculars_report_fields:
  "ai_likelihood (binoculars_report e chunks rs (avg, mn, mx, std) la lb) = round2 avg"
  "confidence (binoculars_report e chunks rs (avg, mn, mx, std) la lb)
     = (if std < 10 then 93/100 else if std < 20 then 87/100 else 80/100)"
  "model (binoculars_report e chunks rs (avg, mn, mx, std) la lb) = binoculars_name"
  "chunk_analysis (binoculars_report e chunks rs (avg, mn, mx, std) la lb)
     = Some \<lparr>num_chunks = length chunks, avg_score = round2 avg,
                 min_score = round2 mn, max_score = round2 mx,
                 std_dev = round2 std, chunk_list = rs\<rparr>"
  by (simp_all add: binoculars_report_def)

lemma detect_roberta_Some:
  assumes "detect_roberta e t = Some r"
  shows "\<exists>chunks probs stats.
           chunk_text t 400 100 = Inr chunks \<and>
           those (map (classify e) chunks) = Some probs \<and>
           score_stats (map chunk_score (map roberta_chunk (zip [0 ..< length chunks] (zip chunks probs))))
             = Some stats \<and>
           r = roberta_report e chunks (map roberta_chunk (zip [0 ..< length chunks] (zip chunks probs))) stats"
proof -
  from assms obtain chunks where c: "chunk_text t 400 100 = Inr chunks"
    unfolding detect_roberta_def by (cases "chunk_text t 400 100") (simp_all split: if_splits)
  from assms c obtain probs where p: "those (map (classify e) chunks) = Some probs"
    unfolding detect_roberta_def
    by (cases "those (map (classify e) chunks)") (simp_all split: if_splits)
  let ?rs = "map roberta_chunk (zip [0 ..< length chunks] (zip chunks probs))"
  from assms c p obtain stats where s: "score_stats (map chunk_score ?rs) = Some stats"
    unfolding detect_roberta_def Let_def
    by (cases "score_stats (map chunk_score ?rs)") (simp_all split: if_splits)
  from assms c p s have "r = roberta_report e chunks ?rs stats"
    unfolding detect_roberta_def Let_def by (simp split: if_splits)
  then show ?thesis using c p s by blast
qed

lemma detect_binoculars_Some:
  assumes "detect_binoculars e t = Some r"
  shows "\<exists>chunks rs stats la lb.
           chunk_text t 700 150 = Inr chunks \<and>
           those (map (binoculars_chunk e) (zip [0 ..< length chunks] chunks)) = Some rs \<and>
           score_stats (map chunk_score rs) = Some stats \<and>
           r = binoculars_report e chunks rs stats la lb"
proof -
  from assms obtain chunks where c: "chunk_text t 700 150 = Inr chunks"
    unfolding detect_binoculars_def by (cases "chunk_text t 700 150") (simp_all split: if_splits)
  let ?m = "those (map (binoculars_chunk e) (zip [0 ..< length chunks] chunks))"
  from assms c obtain rs where p: "?m = Some rs"
    unfolding detect_binoculars_def by (cases ?m) (simp_all split: if_splits)
  from assms c p obtain stats where s: "score_stats (map chunk_score rs) = Some stats"
    unfolding detect_binoculars_def
    by (cases "score_stats (map chunk_score rs)") (simp_all split: if_splits)
  from assms c p s obtain losses where l: "those (map chunk_losses rs) = Some losses"
    unfolding detect_binoculars_def
    by (cases "those (map chunk_losses rs)") (simp_all split: if_splits)
  from assms c p s l have "\<exists>la lb. r = binoculars_report e chunks rs stats la lb"
    unfolding detect_binoculars_def Let_def by (simp split: if_splits) blast
  then show ?thesis using c p s by blast
qed

lemma detect_roberta_model: "detect_roberta e t = Some r \<Longrightarrow> model r = roberta_name"
proof -
  assume "detect_roberta e t = Some r"
  then obtain chunks rs stats where "r = roberta_report e chunks rs stats"
    using detect_roberta_Some by blast
  then show ?thesis by (cases stats) (simp add: roberta_report_def)
qed

lemma detect_binoculars_model: "detect_binoculars e t = Some b \<Longrightarrow> model b = binoculars_name"
proof -
  assume "detect_binoculars e t = Some b"
  then obtain chunks rs stats la lb where "b = binoculars_report e chunks rs stats la lb"
    using detect_binoculars_Some by blast
  then show ?thesis by (cases stats) (simp add: binoculars_report_def)
qed

lemma roberta_name_tag: "contains ''roberta'' (py_lower roberta_name)"
  by (simp add: roberta_name_def py_lower_def lower_char_def)

lemma binoculars_name_tag:
  "\<not> contains ''roberta'' (py_lower binoculars_name) \<and>
   contains ''binoculars'' (py_lower binoculars_name)"
  by (simp add: binoculars_name_def model_a_def model_b_def py_lower_def lower_char_def)

lemma sample_text_words: "length (py_split sample_text) = 12"
  by (simp add: sample_text_def py_split_def is_space_def)

lemma sample_text_chunks:
  "chunk_text sample_text 400 100 = Inr [sample_text]"
  "chunk_text sample_text 700 150 = Inr [sample_text]"
  by (simp_all add: chunk_text_def sample_text_words)

lemma score_stats_single: "score_stats [x] = Some (x, x, x, 0)"
  by (simp add: score_stats_def)

lemma roberta_sample:
  "map_option ai_likelihood (detect_roberta sample_env sample_text) = Some (1/100)"
  by (simp add: detect_roberta_def sample_env_def sample_text_chunks roberta_chunk_def
      score_stats_single roberta_report_def round2_def round_half_even_def)

lemma roberta_confident:
  "map_option ai_likelihood (detect_roberta confident_env sample_text) = Some 80"
  by (simp add: detect_roberta_def confident_env_def sample_env_def sample_text_chunks
      roberta_chunk_def score_stats_single roberta_report_def round2_def round_half_even_def)

lemma binoculars_chunk_score_equal: "binoculars_chunk_score l l = Inr 50"
  by (simp add: binoculars_chunk_score_def loss_ratio_def py_exp_def)

lemma binoculars_sample:
  "map_option ai_likelihood (detect_binoculars sample_env sample_text) = Some 50"
  by (simp add: detect_binoculars_def sample_env_def sample_text_chunks binoculars_chunk_def
      compute_loss_def binoculars_chunk_score_equal score_stats_single binoculars_report_def
      round2_def round_half_even_def)

lemma binoculars_confident:
  "map_option ai_likelihood (detect_binoculars confident_env sample_text) = Some 50"
  by (simp add: detect_binoculars_def confident_env_def sample_env_def sample_text_chunks
      binoculars_chunk_def compute_loss_def binoculars_chunk_score_equal score_stats_single
      binoculars_report_def round2_def round_half_even_def)

lemma identify_both:
  assumes "model r = roberta_name" and "model b = binoculars_name"
  shows "foldl identify (None, None) [Some r, Some b] = (Some r, Some b)"
    and "foldl identify (None, None) [Some b, Some r] = (Some r, Some b)"
  using assms roberta_name_tag binoculars_name_tag by (simp_all add: identify_def)

lemma advanced_both:
  assumes "detect_roberta e t = Some r" and "detect_binoculars e t = Some b"
  shows "fst (detect_ai_content_advanced e t) = combine r b"
proof -
  have imp: "transformers_importable e \<and> torch_importable e"
    using assms(1) by (simp add: detect_roberta_def split: if_splits)
  have m: "model r = roberta_name" "model b = binoculars_name"
    using assms detect_roberta_model detect_binoculars_model by blast+
  show ?thesis
    using imp assms identify_both[OF m]
    by (cases "roberta_first e") (simp_all add: detect_ai_content_advanced_def Let_def)
qed

section \<open>Claims about the ensemble\<close>

text \<open>
  Claim C2, as the code has it. When both detectors produce a result, the likelihood of
  the combined result is 0.6 times the classifier's likelihood plus 0.4 times the
  perplexity comparator's, rounded to two decimals; its confidence is 0.92; its
  indicators are the classifier's followed by the comparator's; the two likelihoods it
  was computed from are kept beside it. Likelihoods 80 and 50 combine to 68.
\<close>

theorem ensemble_combination:
  assumes "detect_roberta e t = Some r" and "detect_binoculars e t = Some b"
  shows "ai_likelihood (fst (detect_ai_content_advanced e t))
           = round2 (6/10 * ai_likelihood r + 4/10 * ai_likelihood b) \<and>
         confidence (fst (detect_ai_content_advanced e t)) = 92/100 \<and>
         indicators (fst (detect_ai_content_advanced e t)) = indicators r @ indicators b \<and>
         roberta_score (fst (detect_ai_content_advanced e t)) = Some (ai_likelihood r) \<and>
         binoculars_score (fst (detect_ai_content_advanced e t)) = Some (ai_likelihood b) \<and>
         (ai_likelihood r = 80 \<and> ai_likelihood b = 50 \<longrightarrow>
            ai_likelihood (fst (detect_ai_content_advanced e t)) = 68)"
proof -
  have eq: "fst (detect_ai_content_advanced e t) = combine r b"
    by (rule advanced_both[OF assms])
  have "round2 (6/10 * 80 + 4/10 * 50) = 68"
    by (simp add: round2_def round_half_even_def)
  then show ?thesis
    unfolding eq by (simp add: combine_def Let_def mult.commute)
qed

text \<open>With a classifier that answers 0.8 and two language models of equal loss, the
  detectors return 80 and 50, and the ensemble 68.\<close>

theorem ensemble_combination_witness:
  "\<exists>r b. detect_roberta confident_env sample_text = Some r \<and>
         detect_binoculars confident_env sample_text = Some b \<and>
         ai_likelihood r = 80 \<and> ai_likelihood b = 50 \<and>
         ai_likelihood (fst (detect_ai_content_advanced confident_env sample_text)) = 68 \<and>
         confidence (fst (detect_ai_content_advanced confident_env sample_text)) = 92/100 \<and>
         indicators (fst (detect_ai_content_advanced confident_env sample_text))
           = indicators r @ indicators b"
proof -
  obtain r where r: "detect_roberta confident_env sample_text = Some r" "ai_likelihood r = 80"
    using roberta_confident by auto
  obtain b where b: "detect_binoculars confident_env sample_text = Some b" "ai_likelihood b = 50"
    using binoculars_confident by auto
  show ?thesis
    using r b ensemble_combination[OF r(1) b(1)] by simp
qed

text \<open>Without the rounding the statement fails: a classifier likelihood of 0.01 and a
  comparator likelihood of 50 have the weighted sum 20.006, and the ensemble returns
  20.01.\<close>

theorem ensemble_unrounded_counterexample:
  "map_option ai_likelihood (detect_roberta sample_env sample_text) = Some (1/100) \<and>
   map_option ai_likelihood (detect_binoculars sample_env sample_text) = Some 50 \<and>
   ai_likelihood (fst (detect_ai_content_advanced sample_env sample_text)) = 2001/100 \<and>
   (2001/100 :: real) \<noteq> 6/10 * (1/100) + 4/10 * 50"
proof -
  obtain r where r: "detect_roberta sample_env sample_text = Some r" "ai_likelihood r = 1/100"
    using roberta_sample by auto
  obtain b where b: "detect_binoculars sample_env sample_text = Some b" "ai_likelihood b = 50"
    using binoculars_sample by auto
  have "ai_likelihood (fst (detect_ai_content_advanced sample_env sample_text)) = 2001/100"
    unfolding advanced_both[OF r(1) b(1)]
    by (simp add: combine_def r(2) b(2) round2_def round_half_even_def)
  then show ?thesis using roberta_sample binoculars_sample by simp
qed

section \<open>Ranges of the results\<close>

lemma round_half_even_bounds:
  assumes "of_int a \<le> y" and "y \<le> of_int b"
  shows "a \<le> round_half_even y \<and> round_half_even y \<le> b"
proof -
  have lo: "a \<le> \<lfloor>y\<rfloor>" using assms(1) by (simp add: le_floor_iff)
  have hi: "\<lfloor>y\<rfloor> \<le> b" using assms(2) by (simp add: floor_le_iff)
  have "\<lfloor>y\<rfloor> + 1 \<le> b" if "y - of_int \<lfloor>y\<rfloor> \<noteq> 0"
  proof -
    have "of_int \<lfloor>y\<rfloor> \<le> y" by (rule of_int_floor_le)
    then have "of_int \<lfloor>y\<rfloor> < y" using that by linarith
    then have "of_int \<lfloor>y\<rfloor> < (of_int b :: real)" using assms(2) by linarith
    then show ?thesis by simp
  qed
  then show ?thesis using lo hi
    by (auto simp: round_half_even_def Let_def)
qed

lemma round2_bounds:
  assumes "0 \<le> x" and "x \<le> 100"
  shows "0 \<le> round2 x \<and> round2 x \<le> 100"
proof -
  have "0 \<le> round_half_even (x * 100) \<and> round_half_even (x * 100) \<le> 10000"
    using assms by (intro round_half_even_bounds) simp_all
  then show ?thesis by (simp add: round2_def)
qed

lemma sum_list_bounds:
  "\<forall>x\<in>set xs. a \<le> x \<and> x \<le> b \<Longrightarrow>
     a * real (length xs) \<le> sum_list xs \<and> sum_list xs \<le> b * real (length xs)"
  for a b :: real
  by (induction xs) (auto simp: algebra_simps)

lemma score_stats_avg:
  assumes "score_stats scores = Some (avg, mn, mx, std)"
    and "\<forall>s\<in>set scores. 0 \<le> s \<and> s \<le> 100"
  shows "0 \<le> avg \<and> avg \<le> 100"
proof -
  have ne: "scores \<noteq> []" using assms(1) by (auto simp: score_stats_def split: if_splits)
  then have n: "0 < real (length scores)" by simp
  have avg: "avg = sum_list scores / real (length scores)"
    using assms(1) ne by (simp add: score_stats_def Let_def)
  have "0 \<le> sum_list scores" "sum_list scores \<le> 100 * real (length scores)"
    using sum_list_bounds[OF assms(2)] by simp_all
  then show ?thesis unfolding avg using n by (simp add: pos_divide_le_eq)
qed

lemma those_map_Some:
  "those (map f xs) = Some ys \<Longrightarrow> list_all2 (\<lambda>x y. f x = Some y) xs ys"
proof (induction xs arbitrary: ys)
  case Nil
  then show ?case by simp
next
  case (Cons x xs)
  then show ?case
    by (cases "f x"; cases "those (map f xs)") auto
qed

lemma binoculars_chunk_score_Inr:
  "binoculars_chunk_score la lb = Inr s \<Longrightarrow> s = 1 / (1 + exp (- loss_ratio la lb * 3)) * 100"
  by (auto simp: binoculars_chunk_score_def py_exp_def Let_def split: if_splits)

lemma binoculars_chunk_score_bounds:
  assumes "binoculars_chunk_score la lb = Inr s"
  shows "0 < s \<and> s < 100"
proof -
  have "0 < exp (- loss_ratio la lb * 3)" by simp
  then have "1 < 1 + exp (- loss_ratio la lb * 3)" by linarith
  then have "0 < 1 / (1 + exp (- loss_ratio la lb * 3)) \<and> 1 / (1 + exp (- loss_ratio la lb * 3)) < 1"
    by (simp add: add_pos_pos)
  then show ?thesis unfolding binoculars_chunk_score_Inr[OF assms] by simp
qed

lemma list_all2_range:
  "list_all2 (\<lambda>x y. f x = Some y) xs ys \<Longrightarrow> y \<in> set ys \<Longrightarrow> \<exists>x\<in>set xs. f x = Some y"
  by (induction rule: list_all2_induct) auto

lemma roberta_in_range:
  assumes "detect_roberta e t = Some r"
    and "\<forall>c p. classify e c = Some p \<longrightarrow> 0 \<le> p \<and> p \<le> 1"
  shows "in_range (ai_likelihood r) (confidence r)"
proof -
  obtain chunks probs stats where
      p: "those (map (classify e) chunks) = Some probs"
    and s: "score_stats (map chunk_score (map roberta_chunk (zip [0 ..< length chunks] (zip chunks probs))))
             = Some stats"
    and r: "r = roberta_report e chunks (map roberta_chunk (zip [0 ..< length chunks] (zip chunks probs))) stats"
    using detect_roberta_Some[OF assms(1)] by blast
  obtain avg mn mx std where st: "stats = (avg, mn, mx, std)" by (cases stats) auto
  have probs: "0 \<le> q \<and> q \<le> 1" if "q \<in> set probs" for q
    using list_all2_range[OF those_map_Some[OF p] that] assms(2) by blast
  have "0 \<le> x \<and> x \<le> 100"
    if "x \<in> set (map chunk_score (map roberta_chunk (zip [0 ..< length chunks] (zip chunks probs))))" for x
  proof -
    from that obtain i c q where "(i, c, q) \<in> set (zip [0 ..< length chunks] (zip chunks probs))"
      and x: "x = q * 100"
      by (auto simp: roberta_chunk_def)
    then have "q \<in> set probs" by (meson in_set_zipE)
    then show ?thesis using probs x by auto
  qed
  then have "0 \<le> avg \<and> avg \<le> 100" using score_stats_avg[OF s[unfolded st]] by blast
  then have "0 \<le> round2 avg \<and> round2 avg \<le> 100" using round2_bounds by blast
  then show ?thesis unfolding r st by (simp add: in_range_def roberta_report_fields)
qed

lemma binoculars_in_range:
  assumes "detect_binoculars e t = Some b"
  shows "in_range (ai_likelihood b) (confidence b)"
proof -
  obtain chunks rs stats la lb where
      p: "those (map (binoculars_chunk e) (zip [0 ..< length chunks] chunks)) = Some rs"
    and s: "score_stats (map chunk_score rs) = Some stats"
    and b: "b = binoculars_report e chunks rs stats la lb"
    using detect_binoculars_Some[OF assms] by blast
  obtain avg mn mx std where st: "stats = (avg, mn, mx, std)" by (cases stats) auto
  have "0 \<le> x \<and> x \<le> 100" if "x \<in> set (map chunk_score rs)" for x
  proof -
    from that obtain cr where cr: "cr \<in> set rs" "x = chunk_score cr" by auto
    then obtain ic where "binoculars_chunk e ic = Some cr"
      using list_all2_range[OF those_map_Some[OF p]] by blast
    then obtain l1 l2 where "binoculars_chunk_score l1 l2 = Inr x"
      using cr(2) by (auto simp: binoculars_chunk_def split: option.splits sum.splits)
    then show ?thesis using binoculars_chunk_score_bounds[of l1 l2 x] by simp
  qed
  then have "0 \<le> avg \<and> avg \<le> 100" using score_stats_avg[OF s[unfolded st]] by blast
  then have "0 \<le> round2 avg \<and> round2 avg \<le> 100" using round2_bounds by blast
  then show ?thesis unfolding b st by (simp add: in_range_def binoculars_report_fields)
qed

lemma simple_in_range:
  "in_range (ai_likelihood (detect_ai_content_simple t)) (confidence (detect_ai_content_simple t))"
  by (cases "heuristic_checks t")
     (auto simp: detect_ai_content_simple_def in_range_def split: prod.splits)

lemma combine_in_range:
  assumes "in_range (ai_likelihood r) (confidence r)" and "in_range (ai_likelihood b) (confidence b)"
  shows "in_range (ai_likelihood (combine r b)) (confidence (combine r b))"
proof -
  have "0 \<le> ai_likelihood r * (6/10) + ai_likelihood b * (4/10)"
       "ai_likelihood r * (6/10) + ai_likelihood b * (4/10) \<le> 100"
    using assms by (simp_all add: in_range_def)
  then have "0 \<le> round2 (ai_likelihood r * (6/10) + ai_likelihood b * (4/10)) \<and>
             round2 (ai_likelihood r * (6/10) + ai_likelihood b * (4/10)) \<le> 100"
    by (rule round2_bounds)
  then show ?thesis by (simp add: combine_def Let_def in_range_def)
qed

lemma identify_roberta_only:
  assumes "model r = roberta_name"
  shows "foldl identify (None, None) [Some r, None] = (Some r, None)"
    and "foldl identify (None, None) [None, Some r] = (Some r, None)"
  using assms roberta_name_tag by (simp_all add: identify_def)

lemma identify_binoculars_only:
  assumes "model b = binoculars_name"
  shows "foldl identify (None, None) [Some b, None] = (None, Some b)"
    and "foldl identify (None, None) [None, Some b] = (None, Some b)"
  using assms binoculars_name_tag by (simp_all add: identify_def)

lemma advanced_only_roberta:
  assumes "detect_roberta e t = Some r" and "detect_binoculars e t = None"
  shows "fst (detect_ai_content_advanced e t) = plain r"
proof -
  have imp: "transformers_importable e \<and> torch_importable e"
    using assms(1) by (simp add: detect_roberta_def split: if_splits)
  have m: "model r = roberta_name" using assms(1) by (rule detect_roberta_model)
  show ?thesis
    using imp assms identify_roberta_only[OF m]
    by (cases "roberta_first e") (simp_all add: detect_ai_content_advanced_def Let_def)
qed

lemma advanced_only_binoculars:
  assumes "detect_roberta e t = None" and "detect_binoculars e t = Some b"
  shows "fst (detect_ai_content_advanced e t) = plain b"
proof -
  have imp: "transformers_importable e \<and> torch_importable e"
    using assms(2) by (simp add: detect_binoculars_def split: if_splits)
  have m: "model b = binoculars_name" using assms(2) by (rule detect_binoculars_model)
  show ?thesis
    using imp assms identify_binoculars_only[OF m]
    by (cases "roberta_first e") (simp_all add: detect_ai_content_advanced_def Let_def)
qed

lemma plain_in_range:
  "in_range (ai_likelihood (plain d)) (confidence (plain d)) = in_range (ai_likelihood d) (confidence d)"
  by (simp add: plain_def)

lemma advanced_in_range:
  assumes "\<forall>c p. classify e c = Some p \<longrightarrow> 0 \<le> p \<and> p \<le> 1"
  shows "in_range (ai_likelihood (fst (detect_ai_content_advanced e t)))
                  (confidence (fst (detect_ai_content_advanced e t)))"
proof (cases "detect_roberta e t")
  case None
  note rn = None
  show ?thesis
  proof (cases "detect_binoculars e t")
    case None
    show ?thesis
      unfolding advanced_both_fail[OF rn None] plain_in_range by (rule simple_in_range)
  next
    case (Some b)
    show ?thesis
      unfolding advanced_only_binoculars[OF rn Some] plain_in_range
      by (rule binoculars_in_range[OF Some])
  qed
next
  case (Some r)
  note rs = Some
  show ?thesis
  proof (cases "detect_binoculars e t")
    case None
    show ?thesis
      unfolding advanced_only_roberta[OF rs None] plain_in_range
      by (rule roberta_in_range[OF rs assms])
  next
    case (Some b)
    show ?thesis
      unfolding advanced_both[OF rs Some]
      by (rule combine_in_range[OF roberta_in_range[OF rs assms] binoculars_in_range[OF Some]])
  qed
qed

lemma analyze_in_range:
  assumes "\<forall>c p. classify e c = Some p \<longrightarrow> 0 \<le> p \<and> p \<le> 1"
  shows "in_range (out_ai_likelihood (analyze_ai_likelihood e text_opt))
                  (out_confidence (analyze_ai_likelihood e text_opt))"
proof (cases "short_input text_opt")
  case True
  then show ?thesis
    by (cases text_opt)
       (auto simp: short_input_def analyze_ai_likelihood_def analyze_run_def too_short_def in_range_def)
next
  case False
  then obtain t where t: "text_opt = Some t" and long: "\<not> (t = [] \<or> length (py_strip t) < 50)"
    by (cases text_opt) (auto simp: short_input_def)
  obtain a d c where ta: "try_advanced e t = (a, d, c)" by (cases "try_advanced e t") auto
  show ?thesis
  proof (cases a)
    case None
    then show ?thesis using t long ta simple_in_range[of t]
      by (simp add: analyze_ai_likelihood_def analyze_run_def Let_def)
  next
    case (Some adv)
    have "adv = fst (detect_ai_content_advanced e t)"
      using ta Some
      by (auto simp: try_advanced_def Let_def split: if_splits prod.splits)
    then have "in_range (ai_likelihood adv) (confidence adv)"
      using advanced_in_range[OF assms] by simp
    then show ?thesis using t long ta Some
      by (simp add: analyze_ai_likelihood_def analyze_run_def Let_def)
  qed
qed

text \<open>
  Claim C6. Every result of the pipeline has its likelihood in [0, 100] and its
  confidence in [0, 1]: the classifier detector's (given that the classifier's
  probabilities lie in [0, 1], as a softmax output does), the perplexity comparator's,
  the combined result, whatever the ensemble returns, the heuristic scorer's on both of
  its paths, the one for too short an input, and whatever the entry point returns.
\<close>

theorem results_in_range:
  assumes "\<forall>c p. classify e c = Some p \<longrightarrow> 0 \<le> p \<and> p \<le> 1"
  shows "(\<forall>r. detect_roberta e t = Some r \<longrightarrow> in_range (ai_likelihood r) (confidence r)) \<and>
         (\<forall>b. detect_binoculars e t = Some b \<longrightarrow> in_range (ai_likelihood b) (confidence b)) \<and>
         (\<forall>r b. detect_roberta e t = Some r \<and> detect_binoculars e t = Some b \<longrightarrow>
            in_range (ai_likelihood (combine r b)) (confidence (combine r b))) \<and>
         in_range (ai_likelihood (fst (detect_ai_content_advanced e t)))
                  (confidence (fst (detect_ai_content_advanced e t))) \<and>
         in_range (ai_likelihood (detect_ai_content_simple t))
                  (confidence (detect_ai_content_simple t)) \<and>
         in_range (out_ai_likelihood too_short) (out_confidence too_short) \<and>
         in_range (out_ai_likelihood (analyze_ai_likelihood e text_opt))
                  (out_confidence (analyze_ai_likelihood e text_opt))"
proof (intro conjI allI impI)
  fix r assume "detect_roberta e t = Some r"
  then show "in_range (ai_likelihood r) (confidence r)" using assms by (rule roberta_in_range)
next
  fix b assume "detect_binoculars e t = Some b"
  then show "in_range (ai_likelihood b) (confidence b)" by (rule binoculars_in_range)
next
  fix r b assume "detect_roberta e t = Some r \<and> detect_binoculars e t = Some b"
  then show "in_range (ai_likelihood (combine r b)) (confidence (combine r b))"
    using roberta_in_range[OF _ assms] binoculars_in_range combine_in_range by blast
next
  show "in_range (ai_likelihood (fst (detect_ai_content_advanced e t)))
                 (confidence (fst (detect_ai_content_advanced e t)))"
    using assms by (rule advanced_in_range)
next
  show "in_range (ai_likelihood (detect_ai_content_simple t))
                 (confidence (detect_ai_content_simple t))"
    by (rule simple_in_range)
next
  show "in_range (out_ai_likelihood too_short) (out_confidence too_short)"
    by (simp add: too_short_def in_range_def)
next
  show "in_range (out_ai_likelihood (analyze_ai_likelihood e text_opt))
                 (out_confidence (analyze_ai_likelihood e text_opt))"
    using assms by (rule analyze_in_range)
qed

lemma sample_env_probs: "\<forall>c p. classify sample_env c = Some p \<longrightarrow> 0 \<le> p \<and> p \<le> 1"
  by (simp add: sample_env_def)

text \<open>With \<open>sample_env\<close> both detectors answer on \<open>sample_text\<close>, and the ensemble
  combines them.\<close>

theorem results_in_range_witness:
  "classify sample_env = (\<lambda>_. Some (1/10000)) \<and> (0::real) \<le> 1/10000 \<and> (1/10000::real) \<le> 1 \<and>
   map_option ai_likelihood (detect_roberta sample_env sample_text) = Some (1/100) \<and>
   map_option ai_likelihood (detect_binoculars sample_env sample_text) = Some 50 \<and>
   in_range (case detect_roberta sample_env sample_text of Some r \<Rightarrow> ai_likelihood r | None \<Rightarrow> - 1)
            (case detect_roberta sample_env sample_text of Some r \<Rightarrow> confidence r | None \<Rightarrow> - 1) \<and>
   in_range (case detect_binoculars sample_env sample_text of Some r \<Rightarrow> ai_likelihood r | None \<Rightarrow> - 1)
            (case detect_binoculars sample_env sample_text of Some r \<Rightarrow> confidence r | None \<Rightarrow> - 1) \<and>
   in_range (ai_likelihood (fst (detect_ai_content_advanced sample_env sample_text)))
            (confidence (fst (detect_ai_content_advanced sample_env sample_text))) \<and>
   ai_likelihood (fst (detect_ai_content_advanced sample_env sample_text)) = 2001/100 \<and>
   in_range (ai_likelihood (detect_ai_content_simple sample_text))
            (confidence (detect_ai_content_simple sample_text)) \<and>
   in_range (out_ai_likelihood (analyze_ai_likelihood sample_env (Some sample_text)))
            (out_confidence (analyze_ai_likelihood sample_env (Some sample_text)))"
proof -
  note R = results_in_range[OF sample_env_probs, of sample_text "Some sample_text"]
  obtain r where r: "detect_roberta sample_env sample_text = Some r" "ai_likelihood r = 1/100"
    using roberta_sample by auto
  obtain b where b: "detect_binoculars sample_env sample_text = Some b" "ai_likelihood b = 50"
    using binoculars_sample by auto
  have c: "ai_likelihood (fst (detect_ai_content_advanced sample_env sample_text)) = 2001/100"
    unfolding advanced_both[OF r(1) b(1)]
    by (simp add: combine_def r(2) b(2) round2_def round_half_even_def)
  have 1: "in_range (ai_likelihood r) (confidence r)" using R r(1) by blast
  have 2: "in_range (ai_likelihood b) (confidence b)" using R b(1) by blast
  show ?thesis
  proof (intro conjI)
    show "classify sample_env = (\<lambda>_. Some (1/10000))" by (simp add: sample_env_def)
    show "(0::real) \<le> 1/10000" "(1/10000::real) \<le> 1" by simp_all
    show "map_option ai_likelihood (detect_roberta sample_env sample_text) = Some (1/100)"
      by (rule roberta_sample)
    show "map_option ai_likelihood (detect_binoculars sample_env sample_text) = Some 50"
      by (rule binoculars_sample)
    show "in_range (case detect_roberta sample_env sample_text of Some r \<Rightarrow> ai_likelihood r | None \<Rightarrow> - 1)
            (case detect_roberta sample_env sample_text of Some r \<Rightarrow> confidence r | None \<Rightarrow> - 1)"
      unfolding r(1) using 1 by simp
    show "in_range (case detect_binoculars sample_env sample_text of Some r \<Rightarrow> ai_likelihood r | None \<Rightarrow> - 1)
            (case detect_binoculars sample_env sample_text of Some r \<Rightarrow> confidence r | None \<Rightarrow> - 1)"
      unfolding b(1) using 2 by simp
    show "ai_likelihood (fst (detect_ai_content_advanced sample_env sample_text)) = 2001/100"
      by (rule c)
  qed (use R in blast)+
qed

section \<open>Properties of the perplexity comparator\<close>















section \<open>Properties of the heuristic scorer\<close>

lemma check_starters_adds:
  "check_starters t st = (fst st + fst (check_starters t (0, [])), snd st @ snd (check_starters t (0, [])))"
  by (simp add: check_starters_def Let_def)

lemma check_pronouns_adds:
  "check_pronouns t st = (fst st + fst (check_pronouns t (0, [])), snd st @ snd (check_pronouns t (0, [])))"
  by (simp add: check_pronouns_def Let_def)

lemma check_transitions_adds:
  "check_transitions t st = (fst st + fst (check_transitions t (0, [])), snd st @ snd (check_transitions t (0, [])))"
  by (simp add: check_transitions_def Let_def)

lemma check_contractions_adds:
  "check_contractions t st = (fst st + fst (check_contractions t (0, [])), snd st @ snd (check_contractions t (0, [])))"
  by (simp add: check_contractions_def Let_def)

lemma later_checks_adds:
  "later_checks t st = (fst st + fst (later_checks t (0, [])), snd st @ snd (later_checks t (0, [])))"
proof -
  define d2 i2 where "d2 = fst (check_starters t (0, []))" and "i2 = snd (check_starters t (0, []))"
  define d3 i3 where "d3 = fst (check_pronouns t (0, []))" and "i3 = snd (check_pronouns t (0, []))"
  define d4 i4 where "d4 = fst (check_transitions t (0, []))" and "i4 = snd (check_transitions t (0, []))"
  define d5 i5 where "d5 = fst (check_contractions t (0, []))" and "i5 = snd (check_contractions t (0, []))"
  have c2: "check_starters t x = (fst x + d2, snd x @ i2)" for x
    unfolding d2_def i2_def by (rule check_starters_adds)
  have c3: "check_pronouns t x = (fst x + d3, snd x @ i3)" for x
    unfolding d3_def i3_def by (rule check_pronouns_adds)
  have c4: "check_transitions t x = (fst x + d4, snd x @ i4)" for x
    unfolding d4_def i4_def by (rule check_transitions_adds)
  have c5: "check_contractions t x = (fst x + d5, snd x @ i5)" for x
    unfolding d5_def i5_def by (rule check_contractions_adds)
  have "later_checks t x = (fst x + d2 + d3 + d4 + d5, snd x @ i2 @ i3 @ i4 @ i5)" for x
    by (simp add: later_checks_def c2 c3 c4 c5)
  then show ?thesis by simp
qed

lemma later_checks_indicators:
  "''Low sentence length variance'' \<notin> set (snd (later_checks t (0, [])))"
  by (simp add: later_checks_def check_starters_def check_pronouns_def check_transitions_def
      check_contractions_def Let_def)

section \<open>Claims about the heuristic scorer\<close>

text \<open>
  Claim C8, as the code has it. The scorer looks at the sentence lengths only when the
  text splits at full stops into more than three pieces. Then, if the word counts of
  the non-blank pieces have a coefficient of variation (sample standard deviation over
  mean) below 0.3, it adds 30 points and its first indicator is the one for uniform
  sentence lengths; the remaining score and indicators are those of the four later
  checks. When the text has at most three pieces the check is skipped: nothing is
  added, and the indicator is absent.
\<close>

theorem uniformity_check:
  "(3 < length (split_on CHR ''.'' t) \<and>
    coeff_var (sentence_lengths (split_on CHR ''.'' t)) = Inr cv \<and> cv < 3/10 \<longrightarrow>
      heuristic_checks t =
        Inr (30 + fst (later_checks t (0, [])),
             ''Low sentence length variance'' # snd (later_checks t (0, []))) \<and>
      ai_likelihood (detect_ai_content_simple t) = real (min 100 (30 + fst (later_checks t (0, [])))) \<and>
      indicators (detect_ai_content_simple t)
        = ''Low sentence length variance'' # snd (later_checks t (0, []))) \<and>
   (\<not> 3 < length (split_on CHR ''.'' t) \<longrightarrow>
      heuristic_checks t = Inr (later_checks t (0, [])) \<and>
      ''Low sentence length variance'' \<notin> set (indicators (detect_ai_content_simple t)))"
proof (intro conjI impI)
  assume a: "3 < length (split_on CHR ''.'' t) \<and>
    coeff_var (sentence_lengths (split_on CHR ''.'' t)) = Inr cv \<and> cv < 3/10"
  then have ne: "sentence_lengths (split_on CHR ''.'' t) \<noteq> []"
    by (auto simp: coeff_var_def)
  have "check_uniformity t (0, []) = Inr (30, [''Low sentence length variance''])"
    using a ne by (simp add: check_uniformity_def Let_def)
  then have "heuristic_checks t = Inr (later_checks t (30, [''Low sentence length variance'']))"
    by (simp add: heuristic_checks_def)
  then show h: "heuristic_checks t =
        Inr (30 + fst (later_checks t (0, [])),
             ''Low sentence length variance'' # snd (later_checks t (0, [])))"
    by (subst (asm) later_checks_adds) simp
  show "ai_likelihood (detect_ai_content_simple t) = real (min 100 (30 + fst (later_checks t (0, []))))"
    using h by (simp add: detect_ai_content_simple_def)
  show "indicators (detect_ai_content_simple t)
        = ''Low sentence length variance'' # snd (later_checks t (0, []))"
    using h by (simp add: detect_ai_content_simple_def)
next
  assume b: "\<not> 3 < length (split_on CHR ''.'' t)"
  then show h: "heuristic_checks t = Inr (later_checks t (0, []))"
    by (simp add: heuristic_checks_def check_uniformity_def Let_def)
  obtain s i where si: "later_checks t (0, []) = (s, i)" by (cases "later_checks t (0, [])") auto
  then have "indicators (detect_ai_content_simple t) = snd (later_checks t (0, []))"
    using h by (simp add: detect_ai_content_simple_def)
  then show "''Low sentence length variance'' \<notin> set (indicators (detect_ai_content_simple t))"
    using later_checks_indicators[of t] by simp
qed

text \<open>Three equal sentences score 30 + 25 + 20; two equal sentences only 20.\<close>

lemma split_on_three: "split_on CHR ''.'' ''a b. a b. a b.'' = [''a b'', '' a b'', '' a b'', '''']"
  by simp

lemma split_on_two: "split_on CHR ''.'' ''a b. a b.'' = [''a b'', '' a b'', '''']"
  by simp

lemma coeff_var_three: "coeff_var (sentence_lengths [''a b'', '' a b'', '' a b'', '''']) = Inr 0"
  by (simp add: sentence_lengths_def coeff_var_def stdev_def mean_def py_split_def py_strip_def
      is_space_def)

lemma coeff_var_two: "coeff_var (sentence_lengths [''a b'', '' a b'', '''']) = Inr 0"
  by (simp add: sentence_lengths_def coeff_var_def stdev_def mean_def py_split_def py_strip_def
      is_space_def)

lemma later_checks_three:
  "later_checks ''a b. a b. a b.'' (0, []) = (45, [''Repetitive sentence starters'', ''Lack of personal pronouns''])"
  by (simp add: later_checks_def check_starters_def check_pronouns_def
      check_transitions_def check_contractions_def sentence_starts_def py_split_def
      py_strip_def py_lower_def lower_char_def is_space_def personal_pronouns_def
      transitions_def contractions_def)

lemma later_checks_two:
  "later_checks ''a b. a b.'' (0, []) = (20, [''Lack of personal pronouns''])"
  by (simp add: later_checks_def check_starters_def check_pronouns_def
      check_transitions_def check_contractions_def sentence_starts_def py_split_def
      py_strip_def py_lower_def lower_char_def is_space_def personal_pronouns_def
      transitions_def contractions_def)

theorem uniformity_check_witness:
  "3 < length (split_on CHR ''.'' ''a b. a b. a b.'') \<and>
   coeff_var (sentence_lengths (split_on CHR ''.'' ''a b. a b. a b.'')) = Inr 0 \<and> (0::real) < 3/10 \<and>
   ai_likelihood (detect_ai_content_simple ''a b. a b. a b.'') = 75 \<and>
   indicators (detect_ai_content_simple ''a b. a b. a b.'')
     = [''Low sentence length variance'', ''Repetitive sentence starters'', ''Lack of personal pronouns''] \<and>
   \<not> 3 < length (split_on CHR ''.'' ''a b. a b.'') \<and>
   heuristic_checks ''a b. a b.'' = Inr (20, [''Lack of personal pronouns'']) \<and>
   ''Low sentence length variance'' \<notin> set (indicators (detect_ai_content_simple ''a b. a b.''))"
  using uniformity_check[of "''a b. a b. a b.''" 0] uniformity_check[of "''a b. a b.''" 0]
  by (simp add: split_on_three split_on_two coeff_var_three later_checks_three later_checks_two)

text \<open>A coefficient of variation below 0.3 alone does not suffice: two sentences of
  two words each have the coefficient 0, and the scorer adds nothing for them.\<close>

theorem uniformity_few_sentences_counterexample:
  "coeff_var (sentence_lengths (split_on CHR ''.'' ''a b. a b.'')) = Inr 0 \<and> (0::real) < 3/10 \<and>
   ai_likelihood (detect_ai_content_simple ''a b. a b.'') = 20 \<and>
   indicators (detect_ai_content_simple ''a b. a b.'') = [''Lack of personal pronouns'']"
proof -
  have "heuristic_checks ''a b. a b.'' = Inr (20, [''Lack of personal pronouns''])"
    by (simp add: heuristic_checks_def check_uniformity_def split_on_two later_checks_two)
  then show ?thesis
    by (simp add: detect_ai_content_simple_def split_on_two coeff_var_two)
qed

section \<open>Properties of the model cache\<close>

lemma get_cached_model_hit:
  "cache s k = Some h \<Longrightarrow> get_cached_model loader k s = (Inr h, s)"
  by (simp add: get_cached_model_def)

lemma get_cached_model_miss:
  "cache s k = None \<Longrightarrow> loader k = Some h \<Longrightarrow>
     get_cached_model loader k s =
       (Inr h, \<lparr>cache = (cache s)(k \<mapsto> h), loads = (loads s)(k := loads s k + 1)\<rparr>)"
  by (simp add: get_cached_model_def Let_def)

lemma get_cached_model_other:
  "k' \<noteq> k \<Longrightarrow>
     loads (snd (get_cached_model loader k' s)) k = loads s k \<and>
     cache (snd (get_cached_model loader k' s)) k = cache s k"
  by (simp add: get_cached_model_def Let_def split: option.splits)

text \<open>Once a key is cached, no later sequence of calls loads it again or replaces it.\<close>

lemma get_all_cached:
  "cache s k = Some h \<Longrightarrow>
     loads (get_all loader ks s) k = loads s k \<and> cache (get_all loader ks s) k = Some h"
proof (induction ks arbitrary: s)
  case Nil
  then show ?case by simp
next
  case (Cons k' ks)
  have "cache (snd (get_cached_model loader k' s)) k = Some h \<and>
        loads (snd (get_cached_model loader k' s)) k = loads s k"
  proof (cases "k' = k")
    case True
    then show ?thesis using Cons.prems by (simp add: get_cached_model_hit)
  next
    case False
    then show ?thesis using Cons.prems get_cached_model_other[OF False, of loader s] by simp
  qed
  then show ?case using Cons.IH[of "snd (get_cached_model loader k' s)"] by simp
qed

lemma get_all_loads:
  assumes "loader k = Some h" and "cache s k = None"
  shows "loads (get_all loader ks s) k = loads s k + (if k \<in> set ks then 1 else 0) \<and>
         cache (get_all loader ks s) k = (if k \<in> set ks then Some h else None)"
  using assms(2)
proof (induction ks arbitrary: s)
  case Nil
  then show ?case by simp
next
  case (Cons k' ks)
  show ?case
  proof (cases "k' = k")
    case True
    let ?s' = "\<lparr>cache = (cache s)(k \<mapsto> h), loads = (loads s)(k := loads s k + 1)\<rparr>"
    have step: "snd (get_cached_model loader k s) = ?s'"
      using get_cached_model_miss[of s k loader h] Cons.prems assms(1) by simp
    have "cache ?s' k = Some h" by simp
    then have "loads (get_all loader ks ?s') k = loads ?s' k \<and> cache (get_all loader ks ?s') k = Some h"
      by (rule get_all_cached)
    then show ?thesis using True step by simp
  next
    case False
    have "cache (snd (get_cached_model loader k' s)) k = None"
         "loads (snd (get_cached_model loader k' s)) k = loads s k"
      using get_cached_model_other[OF False, of loader s] Cons.prems by simp_all
    then show ?thesis using Cons.IH[of "snd (get_cached_model loader k' s)"] False by simp
  qed
qed

text \<open>The three steps of a thread, taken without interruption, are one call.\<close>

lemma uninterrupted_call:
  "foldl (sched_step loader) \<lparr>shared = s, pcs = [AtTest k]\<rparr> [0, 0, 0]
     = \<lparr>shared = snd (get_cached_model loader k s),
        pcs = [Returned (fst (get_cached_model loader k s))]\<rparr>"
  by (cases "cache s k"; cases "loader k")
     (simp_all add: sched_step_def thread_step_def get_cached_model_def Let_def)

text \<open>A caller that has returned stays returned.\<close>

lemma returned_stays:
  assumes "Returned r \<in> set (pcs st)"
  shows "Returned r \<in> set (pcs (sched_step loader st i))"
proof (cases "i < length (pcs st)")
  case False
  then show ?thesis using assms by (simp add: sched_step_def)
next
  case True
  from assms obtain j where j: "j < length (pcs st)" "pcs st ! j = Returned r"
    by (auto simp: in_set_conv_nth)
  obtain p' s' where ts: "thread_step loader (pcs st ! i) (shared st) = (p', s')"
    by (cases "thread_step loader (pcs st ! i) (shared st)") auto
  have pcs': "pcs (sched_step loader st i) = (pcs st)[i := p']"
    using True ts by (simp add: sched_step_def)
  have "(pcs st)[i := p'] ! j = Returned r"
  proof (cases "j = i")
    case True
    then have "p' = Returned r" using ts j(2) by (simp add: thread_step_def)
    then show ?thesis using True j(1) by simp
  next
    case False
    then show ?thesis using j by simp
  qed
  then show ?thesis unfolding pcs' using j(1) by (metis length_list_update nth_mem)
qed

lemma before_store_step:
  assumes "loader k = Some h" and "before_store k h st"
    and "\<forall>p\<in>set (pcs (sched_step loader st i)). \<forall>r. p \<noteq> Returned r"
  shows "before_store k h (sched_step loader st i)"
proof -
  from assms(2) obtain p0 p1 where pcs: "pcs st = [p0, p1]"
    and c: "cache (shared st) k = None"
    and p0: "p0 = AtTest k \<or> p0 = AtLoad k \<or> p0 = AtStore k h"
    and p1: "p1 = AtTest k \<or> p1 = AtLoad k \<or> p1 = AtStore k h"
    and l: "loads (shared st) k = has_loaded k h p0 + has_loaded k h p1"
    by (auto simp: before_store_def split: list.splits)
  consider "i = 0" | "i = 1" | "2 \<le> i" by linarith
  then show ?thesis
  proof cases
    case 1
    from p0 show ?thesis
    proof (elim disjE)
      assume "p0 = AtTest k"
      then show ?thesis using 1 pcs c p1 l
        by (auto simp: before_store_def sched_step_def thread_step_def has_loaded_def)
    next
      assume "p0 = AtLoad k"
      then show ?thesis using 1 pcs c p1 l assms(1)
        by (auto simp: before_store_def sched_step_def thread_step_def has_loaded_def Let_def)
    next
      assume "p0 = AtStore k h"
      then have "Returned (Inr h) \<in> set (pcs (sched_step loader st i))"
        using 1 pcs by (simp add: sched_step_def thread_step_def)
      then show ?thesis using assms(3) by blast
    qed
  next
    case 2
    from p1 show ?thesis
    proof (elim disjE)
      assume "p1 = AtTest k"
      then show ?thesis using 2 pcs c p0 l
        by (auto simp: before_store_def sched_step_def thread_step_def has_loaded_def)
    next
      assume "p1 = AtLoad k"
      then show ?thesis using 2 pcs c p0 l assms(1)
        by (auto simp: before_store_def sched_step_def thread_step_def has_loaded_def Let_def)
    next
      assume "p1 = AtStore k h"
      then have "Returned (Inr h) \<in> set (pcs (sched_step loader st i))"
        using 2 pcs by (simp add: sched_step_def thread_step_def)
      then show ?thesis using assms(3) by blast
    qed
  next
    case 3
    then show ?thesis using assms(2) pcs by (simp add: sched_step_def)
  qed
qed

lemma before_store_run:
  assumes "loader k = Some h"
  shows "(\<forall>p\<in>set (pcs (run_schedule loader pre (two_callers k))). \<forall>r. p \<noteq> Returned r)
           \<longrightarrow> before_store k h (run_schedule loader pre (two_callers k))"
proof (induction pre rule: rev_induct)
  case Nil
  show ?case
    by (simp add: run_schedule_def two_callers_def empty_cache_def before_store_def has_loaded_def)
next
  case (snoc i pre)
  let ?st = "run_schedule loader pre (two_callers k)"
  have run: "run_schedule loader (pre @ [i]) (two_callers k) = sched_step loader ?st i"
    by (simp add: run_schedule_def)
  show ?case
  proof
    assume nr: "\<forall>p\<in>set (pcs (run_schedule loader (pre @ [i]) (two_callers k))). \<forall>r. p \<noteq> Returned r"
    have "\<forall>p\<in>set (pcs ?st). \<forall>r. p \<noteq> Returned r"
    proof (intro ballI allI notI)
      fix p r assume "p \<in> set (pcs ?st)" "p = Returned r"
      then have "Returned r \<in> set (pcs (sched_step loader ?st i))" using returned_stays by blast
      then show False using nr run by auto
    qed
    then have bs: "before_store k h ?st" using snoc.IH by blast
    have nr': "\<forall>p\<in>set (pcs (sched_step loader ?st i)). \<forall>r. p \<noteq> Returned r"
      using nr unfolding run .
    show "before_store k h (run_schedule loader (pre @ [i]) (two_callers k))"
      unfolding run using before_store_step[of loader k h ?st i] assms bs nr' by blast
  qed
qed

lemma both_missed_step:
  assumes "loader k = Some h" and "both_missed k h st"
  shows "both_missed k h (sched_step loader st i)"
proof -
  from assms(2) obtain p0 p1 where pcs: "pcs st = [p0, p1]"
    and p0: "p0 = AtLoad k \<or> p0 = AtStore k h \<or> p0 = Returned (Inr h)"
    and p1: "p1 = AtLoad k \<or> p1 = AtStore k h \<or> p1 = Returned (Inr h)"
    and l: "loads (shared st) k + to_load k p0 + to_load k p1 = 2"
    by (auto simp: both_missed_def split: list.splits)
  consider "i = 0" | "i = 1" | "2 \<le> i" by linarith
  then show ?thesis
  proof cases
    case 1
    from p0 show ?thesis
    proof (elim disjE)
      assume "p0 = AtLoad k"
      then show ?thesis using 1 pcs p1 l assms(1)
        by (auto simp: both_missed_def sched_step_def thread_step_def to_load_def Let_def)
    next
      assume "p0 = AtStore k h"
      then show ?thesis using 1 pcs p1 l
        by (auto simp: both_missed_def sched_step_def thread_step_def to_load_def)
    next
      assume "p0 = Returned (Inr h)"
      then show ?thesis using 1 pcs p1 l
        by (auto simp: both_missed_def sched_step_def thread_step_def to_load_def)
    qed
  next
    case 2
    from p1 show ?thesis
    proof (elim disjE)
      assume "p1 = AtLoad k"
      then show ?thesis using 2 pcs p0 l assms(1)
        by (auto simp: both_missed_def sched_step_def thread_step_def to_load_def Let_def)
    next
      assume "p1 = AtStore k h"
      then show ?thesis using 2 pcs p0 l
        by (auto simp: both_missed_def sched_step_def thread_step_def to_load_def)
    next
      assume "p1 = Returned (Inr h)"
      then show ?thesis using 2 pcs p0 l
        by (auto simp: both_missed_def sched_step_def thread_step_def to_load_def)
    qed
  next
    case 3
    then show ?thesis using assms(2) pcs by (simp add: sched_step_def)
  qed
qed

lemma both_missed_run:
  assumes "loader k = Some h" and "both_missed k h st"
  shows "both_missed k h (foldl (sched_step loader) st post)"
  using assms(2)
proof (induction post arbitrary: st)
  case Nil
  then show ?case by simp
next
  case (Cons i post)
  have "both_missed k h (sched_step loader st i)"
    using both_missed_step[of loader k h st i] assms(1) Cons.prems by blast
  then show ?case using Cons.IH by simp
qed

lemma before_store_both_missed:
  assumes "before_store k h st" and "\<forall>p\<in>set (pcs st). p = AtLoad k \<or> p = AtStore k h"
  shows "both_missed k h st"
proof -
  from assms(1) obtain p0 p1 where pcs: "pcs st = [p0, p1]"
    and l: "loads (shared st) k = has_loaded k h p0 + has_loaded k h p1"
    by (auto simp: before_store_def split: list.splits)
  have "p0 = AtLoad k \<or> p0 = AtStore k h" "p1 = AtLoad k \<or> p1 = AtStore k h"
    using assms(2) pcs by simp_all
  then show ?thesis using pcs l
    by (auto simp: both_missed_def has_loaded_def to_load_def)
qed

lemma both_missed_returned:
  assumes "both_missed k h st" and "\<forall>p\<in>set (pcs st). \<exists>r. p = Returned r"
  shows "loads (shared st) k = 2"
proof -
  from assms(1) obtain p0 p1 where pcs: "pcs st = [p0, p1]"
    and l: "loads (shared st) k + to_load k p0 + to_load k p1 = 2"
    by (auto simp: both_missed_def split: list.splits)
  have "to_load k p0 = 0" "to_load k p1 = 0"
    using assms(2) pcs by (auto simp: to_load_def)
  then show ?thesis using l by simp
qed

text \<open>Whenever both callers test the cache before either stores, the loader runs twice.\<close>

lemma overlapping_callers_load_twice:
  assumes "loader k = Some h"
    and "\<forall>p\<in>set (pcs (run_schedule loader pre (two_callers k))). p = AtLoad k \<or> p = AtStore k h"
    and "\<forall>p\<in>set (pcs (run_schedule loader (pre @ post) (two_callers k))). \<exists>r. p = Returned r"
  shows "loads (shared (run_schedule loader (pre @ post) (two_callers k))) k = 2"
proof -
  let ?st = "run_schedule loader pre (two_callers k)"
  have "\<forall>p\<in>set (pcs ?st). \<forall>r. p \<noteq> Returned r" using assms(2) by auto
  then have "before_store k h ?st" using before_store_run[of loader k h pre] assms(1) by blast
  then have "both_missed k h ?st" using assms(2) by (rule before_store_both_missed)
  then have "both_missed k h (foldl (sched_step loader) ?st post)"
    using both_missed_run[of loader k h ?st post] assms(1) by blast
  moreover have "run_schedule loader (pre @ post) (two_callers k) = foldl (sched_step loader) ?st post"
    by (simp add: run_schedule_def)
  ultimately show ?thesis using both_missed_returned assms(3) by metis
qed

lemma thread_step_not_test: "fst (thread_step loader p s) \<noteq> AtTest k"
  by (cases p) (auto simp: thread_step_def Let_def split: option.splits)

lemma alone_step:
  assumes "loader k = Some h" and "alone k h s p"
  shows "alone k h (snd (thread_step loader p s)) (fst (thread_step loader p s))"
  using assms unfolding alone_def
  by (elim disjE) (auto simp: thread_step_def Let_def)

lemma one_waiting_step:
  assumes "loader k = Some h" and "one_waiting k h st"
  shows "one_waiting k h (sched_step loader st i)"
proof -
  from assms(2) obtain p0 p1 where pcs: "pcs st = [p0, p1]"
    and a0: "p1 = AtTest k \<Longrightarrow> alone k h (shared st) p0"
    and a1: "p0 = AtTest k \<Longrightarrow> alone k h (shared st) p1"
    by (auto simp: one_waiting_def split: list.splits if_splits)
  consider "i = 0" | "i = 1" | "2 \<le> i" by linarith
  then show ?thesis
  proof cases
    case 1
    obtain p' s' where ts: "thread_step loader p0 (shared st) = (p', s')"
      by (cases "thread_step loader p0 (shared st)") auto
    have st': "sched_step loader st i = \<lparr>shared = s', pcs = [p', p1]\<rparr>"
      using 1 pcs ts by (simp add: sched_step_def)
    have nt: "p' \<noteq> AtTest k" using thread_step_not_test[of loader p0 "shared st" k] ts by simp
    have "alone k h s' p'" if "p1 = AtTest k"
      using alone_step[of loader k h "shared st" p0] assms(1) a0[OF that] ts by simp
    then show ?thesis unfolding st' using nt by (simp add: one_waiting_def)
  next
    case 2
    obtain p' s' where ts: "thread_step loader p1 (shared st) = (p', s')"
      by (cases "thread_step loader p1 (shared st)") auto
    have st': "sched_step loader st i = \<lparr>shared = s', pcs = [p0, p']\<rparr>"
      using 2 pcs ts by (simp add: sched_step_def)
    have nt: "p' \<noteq> AtTest k" using thread_step_not_test[of loader p1 "shared st" k] ts by simp
    have "alone k h s' p'" if "p0 = AtTest k"
      using alone_step[of loader k h "shared st" p1] assms(1) a1[OF that] ts by simp
    then show ?thesis unfolding st' using nt by (simp add: one_waiting_def)
  next
    case 3
    then show ?thesis using assms(2) pcs by (simp add: sched_step_def)
  qed
qed

lemma one_waiting_run:
  assumes "loader k = Some h"
  shows "one_waiting k h (run_schedule loader pre (two_callers k))"
proof (induction pre rule: rev_induct)
  case Nil
  show ?case
    by (simp add: run_schedule_def two_callers_def empty_cache_def one_waiting_def alone_def)
next
  case (snoc i pre)
  have "run_schedule loader (pre @ [i]) (two_callers k)
          = sched_step loader (run_schedule loader pre (two_callers k)) i"
    by (simp add: run_schedule_def)
  then show ?case
    using one_waiting_step[of loader k h "run_schedule loader pre (two_callers k)" i] assms snoc.IH
    by simp
qed

lemma key_stored_step:
  assumes "key_stored k h st"
  shows "key_stored k h (sched_step loader st i)"
proof -
  from assms obtain p0 p1 where pcs: "pcs st = [p0, p1]"
    and c: "cache (shared st) k = Some h" and l: "loads (shared st) k = 1"
    and p0: "p0 = AtTest k \<or> p0 = Returned (Inr h)"
    and p1: "p1 = AtTest k \<or> p1 = Returned (Inr h)"
    by (auto simp: key_stored_def split: list.splits)
  consider "i = 0" | "i = 1" | "2 \<le> i" by linarith
  then show ?thesis
  proof cases
    case 1
    then show ?thesis using pcs c l p0 p1
      by (auto simp: key_stored_def sched_step_def thread_step_def)
  next
    case 2
    then show ?thesis using pcs c l p0 p1
      by (auto simp: key_stored_def sched_step_def thread_step_def)
  next
    case 3
    then show ?thesis using assms pcs by (simp add: sched_step_def)
  qed
qed

lemma key_stored_run:
  "key_stored k h st \<Longrightarrow> key_stored k h (foldl (sched_step loader) st post)"
proof (induction post arbitrary: st)
  case Nil
  then show ?case by simp
next
  case (Cons i post)
  have "key_stored k h (sched_step loader st i)" using Cons.prems by (rule key_stored_step)
  then show ?case using Cons.IH by simp
qed

text \<open>Whenever one caller has returned before the other tests the cache, the loader
  runs once.\<close>

lemma serial_callers_load_once:
  assumes "loader k = Some h"
    and "pcs (run_schedule loader pre (two_callers k)) = [Returned r, AtTest k] \<or>
         pcs (run_schedule loader pre (two_callers k)) = [AtTest k, Returned r]"
  shows "loads (shared (run_schedule loader (pre @ post) (two_callers k))) k = 1"
proof -
  let ?st = "run_schedule loader pre (two_callers k)"
  have ow: "one_waiting k h ?st" using one_waiting_run[of loader k h pre] assms(1) by blast
  have "alone k h (shared ?st) (Returned r)"
    using assms(2) ow by (auto simp: one_waiting_def)
  then have "r = Inr h \<and> cache (shared ?st) k = Some h \<and> loads (shared ?st) k = 1"
    by (auto simp: alone_def)
  then have "key_stored k h ?st" using assms(2) by (auto simp: key_stored_def)
  then have "key_stored k h (foldl (sched_step loader) ?st post)" by (rule key_stored_run)
  moreover have "run_schedule loader (pre @ post) (two_callers k) = foldl (sched_step loader) ?st post"
    by (simp add: run_schedule_def)
  ultimately show ?thesis by (auto simp: key_stored_def split: list.splits)
qed

section \<open>Claims about the model cache\<close>

lemma serial_two_callers:
  assumes "loader k = Some h"
  shows "run_schedule loader [0, 0, 0, 1, 1, 1] (two_callers k)
           = \<lparr>shared = \<lparr>cache = Map.empty(k \<mapsto> h), loads = (\<lambda>_. 0)(k := Suc 0)\<rparr>,
              pcs = [Returned (Inr h), Returned (Inr h)]\<rparr>"
  using assms
  by (simp add: run_schedule_def sched_step_def thread_step_def two_callers_def empty_cache_def)

lemma overlapping_two_callers:
  assumes "loader k = Some h"
  shows "run_schedule loader [0, 1, 0, 1, 0, 1] (two_callers k)
           = \<lparr>shared = \<lparr>cache = Map.empty(k \<mapsto> h), loads = (\<lambda>_. 0)(k := Suc (Suc 0))\<rparr>,
              pcs = [Returned (Inr h), Returned (Inr h)]\<rparr>"
  using assms
  by (simp add: run_schedule_def sched_step_def thread_step_def two_callers_def empty_cache_def)

text \<open>
  Claim C4, as the code has it. \<^verbatim>\<open>get_cached_model\<close> takes no lock. In a sequence of calls
  that do not overlap, a key whose load succeeds is loaded exactly once, however often
  it is requested, and stays cached. Of two callers asking for the same key for the first
  time, under every schedule: when one has returned before the other tests the cache,
  the key is loaded once; when both test the cache before either has stored, each of
  them loads, and once both have returned the key has been loaded twice. The two worker
  tasks of the ensemble ask for different keys: the classifier's key is neither of the
  two language models' keys.
\<close>

theorem cache_loads_once_in_sequence:
  assumes "loader k = Some h"
  shows "(k \<in> set ks \<longrightarrow>
            loads (get_all loader ks empty_cache) k = 1 \<and>
            cache (get_all loader ks empty_cache) k = Some h) \<and>
         loads (shared (run_schedule loader [0, 0, 0, 1, 1, 1] (two_callers k))) k = 1 \<and>
         pcs (run_schedule loader [0, 0, 0, 1, 1, 1] (two_callers k))
           = [Returned (Inr h), Returned (Inr h)] \<and>
         loads (shared (run_schedule loader [0, 1, 0, 1, 0, 1] (two_callers k))) k = 2 \<and>
         ''classifier:'' @ roberta_name \<noteq> model_a \<and> ''classifier:'' @ roberta_name \<noteq> model_b \<and>
         (\<forall>pre post r.
            pcs (run_schedule loader pre (two_callers k)) = [Returned r, AtTest k] \<or>
            pcs (run_schedule loader pre (two_callers k)) = [AtTest k, Returned r] \<longrightarrow>
            loads (shared (run_schedule loader (pre @ post) (two_callers k))) k = 1) \<and>
         (\<forall>pre post.
            (\<forall>p\<in>set (pcs (run_schedule loader pre (two_callers k))). p = AtLoad k \<or> p = AtStore k h) \<and>
            (\<forall>p\<in>set (pcs (run_schedule loader (pre @ post) (two_callers k))). \<exists>r. p = Returned r) \<longrightarrow>
            loads (shared (run_schedule loader (pre @ post) (two_callers k))) k = 2)"
proof (intro conjI impI allI)
  assume "k \<in> set ks"
  then show "loads (get_all loader ks empty_cache) k = 1"
    using get_all_loads[of loader k h empty_cache ks] assms by (simp add: empty_cache_def)
  show "cache (get_all loader ks empty_cache) k = Some h"
    using \<open>k \<in> set ks\<close> get_all_loads[of loader k h empty_cache ks] assms by (simp add: empty_cache_def)
next
  show "loads (shared (run_schedule loader [0, 0, 0, 1, 1, 1] (two_callers k))) k = 1"
    using serial_two_callers[of loader k h] assms by simp
  show "pcs (run_schedule loader [0, 0, 0, 1, 1, 1] (two_callers k))
           = [Returned (Inr h), Returned (Inr h)]"
    using serial_two_callers[of loader k h] assms by simp
  show "loads (shared (run_schedule loader [0, 1, 0, 1, 0, 1] (two_callers k))) k = 2"
    using overlapping_two_callers[of loader k h] assms by simp
  show "''classifier:'' @ roberta_name \<noteq> model_a" by (simp add: roberta_name_def model_a_def)
  show "''classifier:'' @ roberta_name \<noteq> model_b" by (simp add: roberta_name_def model_b_def)
next
  fix pre post r
  assume "pcs (run_schedule loader pre (two_callers k)) = [Returned r, AtTest k] \<or>
          pcs (run_schedule loader pre (two_callers k)) = [AtTest k, Returned r]"
  then show "loads (shared (run_schedule loader (pre @ post) (two_callers k))) k = 1"
    using serial_callers_load_once[of loader k h pre r post] assms by blast
next
  fix pre post
  assume "(\<forall>p\<in>set (pcs (run_schedule loader pre (two_callers k))). p = AtLoad k \<or> p = AtStore k h) \<and>
          (\<forall>p\<in>set (pcs (run_schedule loader (pre @ post) (two_callers k))). \<exists>r. p = Returned r)"
  then show "loads (shared (run_schedule loader (pre @ post) (two_callers k))) k = 2"
    using overlapping_callers_load_twice[of loader k h pre post] assms by blast
qed

text \<open>Runs of two callers asking for \<^verbatim>\<open>gpt2\<close>: the first caller alone, and the first
  caller up to its load with the second past its test.\<close>

lemma gpt2_runs:
  "pcs (run_schedule (\<lambda>_. Some ()) [0, 0, 0] (two_callers ''gpt2'')) = [Returned (Inr ()), AtTest ''gpt2'']"
  "pcs (run_schedule (\<lambda>_. Some ()) [0, 0, 1] (two_callers ''gpt2'')) = [AtStore ''gpt2'' (), AtLoad ''gpt2'']"
  "pcs (run_schedule (\<lambda>_. Some ()) ([0, 0, 1] @ [1, 0, 1]) (two_callers ''gpt2''))
     = [Returned (Inr ()), Returned (Inr ())]"
  by (simp_all add: run_schedule_def sched_step_def thread_step_def two_callers_def empty_cache_def)

theorem cache_loads_once_in_sequence_witness:
  "(\<lambda>_. Some ()) ''gpt2'' = Some () \<and> ''gpt2'' \<in> set [''gpt2'', ''other'', ''gpt2''] \<and>
   loads (get_all (\<lambda>_. Some ()) [''gpt2'', ''other'', ''gpt2''] empty_cache) ''gpt2'' = 1 \<and>
   cache (get_all (\<lambda>_. Some ()) [''gpt2'', ''other'', ''gpt2''] empty_cache) ''gpt2'' = Some () \<and>
   loads (shared (run_schedule (\<lambda>_. Some ()) [0, 0, 0, 1, 1, 1] (two_callers ''gpt2''))) ''gpt2'' = 1 \<and>
   pcs (run_schedule (\<lambda>_. Some ()) [0, 0, 0] (two_callers ''gpt2'')) = [Returned (Inr ()), AtTest ''gpt2''] \<and>
   loads (shared (run_schedule (\<lambda>_. Some ()) ([0, 0, 0] @ [1]) (two_callers ''gpt2''))) ''gpt2'' = 1 \<and>
   pcs (run_schedule (\<lambda>_. Some ()) [0, 0, 1] (two_callers ''gpt2'')) = [AtStore ''gpt2'' (), AtLoad ''gpt2''] \<and>
   pcs (run_schedule (\<lambda>_. Some ()) ([0, 0, 1] @ [1, 0, 1]) (two_callers ''gpt2''))
     = [Returned (Inr ()), Returned (Inr ())] \<and>
   loads (shared (run_schedule (\<lambda>_. Some ()) ([0, 0, 1] @ [1, 0, 1]) (two_callers ''gpt2''))) ''gpt2'' = 2"
proof -
  note T = cache_loads_once_in_sequence[of "\<lambda>_. Some ()" "''gpt2''" "()" "[''gpt2'', ''other'', ''gpt2'']"]
  have a: "loads (get_all (\<lambda>_. Some ()) [''gpt2'', ''other'', ''gpt2''] empty_cache) ''gpt2'' = 1"
    "cache (get_all (\<lambda>_. Some ()) [''gpt2'', ''other'', ''gpt2''] empty_cache) ''gpt2'' = Some ()"
    "loads (shared (run_schedule (\<lambda>_. Some ()) [0, 0, 0, 1, 1, 1] (two_callers ''gpt2''))) ''gpt2'' = 1"
    using T by simp_all
  have ser: "\<forall>pre post r.
            pcs (run_schedule (\<lambda>_. Some ()) pre (two_callers ''gpt2'')) = [Returned r, AtTest ''gpt2''] \<or>
            pcs (run_schedule (\<lambda>_. Some ()) pre (two_callers ''gpt2'')) = [AtTest ''gpt2'', Returned r] \<longrightarrow>
            loads (shared (run_schedule (\<lambda>_. Some ()) (pre @ post) (two_callers ''gpt2''))) ''gpt2'' = 1"
    using T by simp
  have ovl: "\<forall>pre post.
            (\<forall>p\<in>set (pcs (run_schedule (\<lambda>_. Some ()) pre (two_callers ''gpt2''))).
                p = AtLoad ''gpt2'' \<or> p = AtStore ''gpt2'' ()) \<and>
            (\<forall>p\<in>set (pcs (run_schedule (\<lambda>_. Some ()) (pre @ post) (two_callers ''gpt2''))).
                \<exists>r. p = Returned r) \<longrightarrow>
            loads (shared (run_schedule (\<lambda>_. Some ()) (pre @ post) (two_callers ''gpt2''))) ''gpt2'' = 2"
    using T by simp
  have b: "loads (shared (run_schedule (\<lambda>_. Some ()) ([0, 0, 0] @ [1]) (two_callers ''gpt2''))) ''gpt2'' = 1"
    using ser gpt2_runs(1) by blast
  have "\<forall>p\<in>set (pcs (run_schedule (\<lambda>_. Some ()) [0, 0, 1] (two_callers ''gpt2''))).
          p = AtLoad ''gpt2'' \<or> p = AtStore ''gpt2'' ()"
    unfolding gpt2_runs(2) by simp
  moreover have "\<forall>p\<in>set (pcs (run_schedule (\<lambda>_. Some ()) ([0, 0, 1] @ [1, 0, 1]) (two_callers ''gpt2''))).
          \<exists>r. p = Returned r"
    unfolding gpt2_runs(3) by simp
  ultimately have c: "loads (shared (run_schedule (\<lambda>_. Some ()) ([0, 0, 1] @ [1, 0, 1]) (two_callers ''gpt2''))) ''gpt2'' = 2"
    using ovl by blast
  show ?thesis
  proof (intro conjI)
    show "(\<lambda>_. Some ()) ''gpt2'' = Some ()" by simp
    show "''gpt2'' \<in> set [''gpt2'', ''other'', ''gpt2'']" by simp
  qed (rule a b c gpt2_runs)+
qed

text \<open>Two callers asking for \<^verbatim>\<open>gpt2\<close> for the first time, taking their steps in turn:
  both return the handle, and the loader has run twice.\<close>

theorem concurrent_double_load_counterexample:
  "loads (shared (run_schedule (\<lambda>_. Some ()) [0, 1, 0, 1, 0, 1] (two_callers ''gpt2''))) ''gpt2'' = 2
   \<and> pcs (run_schedule (\<lambda>_. Some ()) [0, 1, 0, 1, 0, 1] (two_callers ''gpt2''))
       = [Returned (Inr ()), Returned (Inr ())]"
  by (simp add: run_schedule_def sched_step_def thread_step_def two_callers_def empty_cache_def)

end
